theory Spec2Isabelle
  imports Complex_Main
begin

section \<open>Numbers, rounding and result records\<close>

text \<open>
  The engine computes on JavaScript numbers. They are modelled as exact reals:
  \<open>+\<close>, \<open>-\<close>, \<open>*\<close>, \<open>/\<close> and \<open>Math.pow(x, k)\<close> with a loop index \<open>k\<close>
  are the operations of the field, and comparisons are those of the order. The rounding
  of binary floating point (and NaN, infinities) is outside this model; the decimal
  rounding the code asks for explicitly (\<open>toFixed\<close>) is inside it. A quotient with divisor
  0 is an infinity or NaN in the code and 0 in HOL: the theorems below that speak of a
  quotient hold where its divisor is not 0, and say so.
\<close>

text \<open>
  \<open>parseFloat(x.toFixed(d))\<close>: the integer \<open>n\<close> with \<open>n / 10^d\<close> nearest to \<open>x\<close>, the larger
  one at a tie, after the sign has been taken off (so ties go away from zero).
\<close>

definition toFixed :: "real \<Rightarrow> nat \<Rightarrow> real" where
  "toFixed x d =
     (if x < 0 then - (of_int \<lfloor>(- x) * 10 ^ d + 1 / 2\<rfloor> / 10 ^ d)
      else of_int \<lfloor>x * 10 ^ d + 1 / 2\<rfloor> / 10 ^ d)"

text \<open>\<open>Math.round\<close>: nearest integer, ties towards plus infinity.\<close>

definition Math_round :: "real \<Rightarrow> int" where
  "Math_round x = \<lfloor>x + 1 / 2\<rfloor>"

text \<open>\<open>Math.floor\<close>.\<close>

definition Math_floor :: "real \<Rightarrow> int" where
  "Math_floor x = \<lfloor>x\<rfloor>"

section \<open>The polynomial density module (src/unnamed/part_002)\<close>

definition RHO_ETH_20 :: real where
  "RHO_ETH_20 = 789.24"

definition A :: "real list" where
  "A = [998.20123, -192.9769495, 389.1238958, -1668.103923, 13522.15441,
        -88292.78388, 306287.4042, -613838.1234, 747017.2998, -547846.1354,
        223446.0334, -39032.85426]"

definition B :: "real list" where
  "B = [0, -0.20618513, -0.0052682542, 0.000036130013, -0.00000038957702,
        0.000000007169354, -0.000000000099739231]"

definition C :: "(nat \<times> nat \<times> real) list" where
  "C = [(1, 1, 0.16911721), (1, 2, -0.00001026186), (1, 3, -0.0000010859217),
        (1, 4, -0.000000018586393), (1, 5, 0.00000000059363544),
        (2, 1, -0.20369835), (2, 2, 0.0031222004), (2, 3, -0.00012314599),
        (2, 4, 0.000001630665), (2, 5, -0.000000011111394),
        (3, 1, 0.71175079), (3, 2, -0.013656474), (3, 3, 0.00059376345),
        (3, 4, -0.000008613356), (3, 5, 0.000000061058245),
        (4, 1, -1.2443657), (4, 2, 0.027466369), (4, 3, -0.001487506),
        (4, 4, 0.000024603699), (4, 5, -0.00000018428128),
        (5, 1, 0.89234477), (5, 2, -0.03588147), (5, 3, 0.0021359045),
        (5, 4, -0.000041698377), (5, 5, 0.00000033301956),
        (6, 1, -0.22211216), (6, 2, 0.023377377), (6, 3, -0.0017755628),
        (6, 4, 0.000040143198), (6, 5, -0.00000035418367)]"

text \<open>
  The three loops of \<open>rho_p_t\<close>, over any cross-term table: the two polynomial modules
  differ in that table only.
\<close>

definition rho_poly :: "(nat \<times> nat \<times> real) list \<Rightarrow> real \<Rightarrow> real \<Rightarrow> real" where
  "rho_poly tab p t =
     (let dt = t - 20;
          rho = 0;
          rho = fold (\<lambda>k rho. rho + A ! k * p ^ k) [0..<length A] rho;
          rho = fold (\<lambda>k rho. rho + B ! k * dt ^ k) [1..<length B] rho;
          rho = fold (\<lambda>(i, j, val) rho. rho + val * p ^ i * dt ^ j) tab rho
      in rho)"

definition rho_p_t :: "real \<Rightarrow> real \<Rightarrow> real" where
  "rho_p_t p t = rho_poly C p t"

text \<open>
  One pass of the bisection loop of \<open>abvToMassFraction\<close> on its state \<open>(low, high, p)\<close>. The
  density function is a parameter: the second polynomial module runs the same loop on its
  own \<open>rho_p_t\<close>.
\<close>

definition abv_step :: "(real \<Rightarrow> real \<Rightarrow> real) \<Rightarrow> real \<Rightarrow> nat \<Rightarrow>
    real \<times> real \<times> real \<Rightarrow> real \<times> real \<times> real" where
  "abv_step rho targetV i s =
     (case s of (low, high, p0) \<Rightarrow>
        let p = (low + high) / 2;
            v = (p * rho p 20) / RHO_ETH_20
        in if v < targetV then (p, high, p) else (low, p, p))"

definition abv_solve :: "(real \<Rightarrow> real \<Rightarrow> real) \<Rightarrow> real \<Rightarrow> real" where
  "abv_solve rho abv =
     (if abv \<le> 0 then 0
      else if abv \<ge> 100 then 1
      else let targetV = abv / 100;
               (low, high, p) = fold (abv_step rho targetV) [0..<40] (0, 1, 0.5)
           in p)"

definition abvToMassFraction :: "real \<Rightarrow> real" where
  "abvToMassFraction abv = abv_solve rho_p_t abv"

definition calculateDensity :: "real \<Rightarrow> real \<Rightarrow> real" where
  "calculateDensity abv tempC =
     (let p = abvToMassFraction abv
      in toFixed (rho_p_t p tempC / 1000) 6)"

definition calculateWaterDensity :: "real \<Rightarrow> real" where
  "calculateWaterDensity tempC = calculateDensity 0 tempC"

definition calculateEthanolDensity :: "real \<Rightarrow> real" where
  "calculateEthanolDensity tempC = calculateDensity 100 tempC"

definition massFractionToAbv :: "real \<Rightarrow> real" where
  "massFractionToAbv massFrac =
     (let rho = rho_p_t massFrac 20
      in (massFrac * rho / RHO_ETH_20) * 100)"

text \<open>
  Both \<open>calculateVolumeFromMass\<close> here and \<open>calculateDensity\<close> of the second polynomial
  module return an object with a field \<open>density\<close>; the records share it through a parent.
\<close>

record WithDensity =
  density :: real

record VolumeResult = WithDensity +
  volumeMl :: real

definition calculateVolumeFromMass :: "real \<Rightarrow> real \<Rightarrow> real \<Rightarrow> VolumeResult" where
  "calculateVolumeFromMass massG abv tempC =
     (let density = calculateDensity abv tempC
      in \<lparr> density = density, volumeMl = toFixed (massG / density) 2 \<rparr>)"

definition calculateEthanolMass :: "real \<Rightarrow> real \<Rightarrow> real \<Rightarrow> real" where
  "calculateEthanolMass volMl abv tempC =
     (let density = calculateDensity abv tempC;
          massFrac = abvToMassFraction abv
      in toFixed (volMl * density * massFrac) 2)"

record DilutionResult =
  waterToAddG :: real
  finalMassG :: real
  ethanolMassG :: real
  sourceMassFraction :: real
  targetMassFraction :: real

definition calculateDilutionWater :: "real \<Rightarrow> real \<Rightarrow> real \<Rightarrow> DilutionResult" where
  "calculateDilutionWater sourceMassG sourceAbv targetAbv =
     (let p1 = abvToMassFraction sourceAbv;
          p2 = abvToMassFraction targetAbv;
          m2 = (sourceMassG * p1) / p2
      in \<lparr> waterToAddG = toFixed (m2 - sourceMassG) 1,
           finalMassG = toFixed m2 1,
           ethanolMassG = toFixed (sourceMassG * p1) 2,
           sourceMassFraction = toFixed p1 4,
           targetMassFraction = toFixed p2 4 \<rparr>)"

text \<open>
  The record of \<open>getHydrometerCorrection\<close>. The field \<open>abvRange\<close> is the string
  \<open>`${abvInt}-${abvInt + 10}`\<close>; the model keeps its two numbers.
\<close>

record HydrometerCorrection =
  correction :: real
  trueAbv :: real
  abvRange :: "int \<times> int"
  tempRounded :: int
  interpolated :: bool

record HydrometerReading = HydrometerCorrection +
  outsideTableRange :: bool
  tempUsed :: int

text \<open>
  One pass of the bisection loop of \<open>getHydrometerCorrection\<close> on its state
  \<open>(low, high, trueAbv)\<close>; \<open>f\<close> is \<open>abvToMassFraction\<close>, \<open>rho\<close> is \<open>rho_p_t\<close> and \<open>target\<close>
  the density compared against.
\<close>

definition hyd_step :: "(real \<Rightarrow> real) \<Rightarrow> (real \<Rightarrow> real \<Rightarrow> real) \<Rightarrow> real \<Rightarrow> real \<Rightarrow> nat \<Rightarrow>
    real \<times> real \<times> real \<Rightarrow> real \<times> real \<times> real" where
  "hyd_step f rho target tempC i s =
     (case s of (low, high, trueAbv0) \<Rightarrow>
        let trueAbv = (low + high) / 2;
            rho = rho (f trueAbv) tempC
        in if rho > target then (trueAbv, high, trueAbv) else (low, trueAbv, trueAbv))"

definition hyd_solve :: "(real \<Rightarrow> real) \<Rightarrow> (real \<Rightarrow> real \<Rightarrow> real) \<Rightarrow> real \<Rightarrow> real \<Rightarrow> real" where
  "hyd_solve f rho target tempC =
     (let (low, high, trueAbv) = fold (hyd_step f rho target tempC) [0..<30] (0, 100, 50)
      in trueAbv)"

definition getHydrometerCorrection :: "real \<Rightarrow> real \<Rightarrow> HydrometerCorrection" where
  "getHydrometerCorrection readingAbv tempC =
     (let targetRho = rho_p_t (abvToMassFraction readingAbv) 20;
          trueAbv = hyd_solve abvToMassFraction rho_p_t targetRho tempC;
          abvInt = Math_floor (readingAbv / 10) * 10
      in \<lparr> correction = toFixed (trueAbv - readingAbv) 1,
           trueAbv = toFixed trueAbv 1,
           abvRange = (abvInt, abvInt + 10),
           tempRounded = Math_round tempC,
           interpolated = True \<rparr>)"

definition correctHydrometerReading :: "real \<Rightarrow> real \<Rightarrow> HydrometerReading" where
  "correctHydrometerReading readingAbv tempC =
     (let result = getHydrometerCorrection readingAbv tempC
      in HydrometerCorrection.extend result
           \<lparr> outsideTableRange = (tempC < 10 \<or> tempC > 30),
             tempUsed = tempRounded result \<rparr>)"

datatype warning_level = none | caution | danger

record TemperatureCheck =
  isValid :: bool
  warning :: warning_level
  message :: string

text \<open>The two letters of the messages outside ASCII, as their UTF-8 bytes.\<close>

definition degree_sign :: string where
  "degree_sign = [CHR 0xC2, CHR 0xB0]"

definition a_acute :: string where
  "a_acute = [CHR 0xC3, CHR 0xA1]"

definition validateTemperature :: "real \<Rightarrow> TemperatureCheck" where
  "validateTemperature tempC =
     (if tempC < 10 \<or> tempC > 30
      then \<lparr> isValid = False, warning = danger,
             message = ''Temperatura fuera de rango (10-30'' @ degree_sign @ ''C)'' \<rparr>
      else \<lparr> isValid = True,
             warning = (if tempC < 15 \<or> tempC > 25 then caution else none),
             message = '''' \<rparr>)"

section \<open>The polynomial module with contraction factor (src/unnamed/part_003, lines 369-538)\<close>

text \<open>
  This module has the constants \<open>RHO_ETH_20\<close>, \<open>A\<close> and \<open>B\<close> of the module above, another
  table \<open>C\<close> of cross terms, and functions of the same names: \<open>rho_p_t\<close> and
  \<open>abvToMassFraction\<close> have the same text (over the other table), \<open>calculateDensity\<close> also
  returns the contraction factor, and \<open>getHydrometerCorrection\<close> corrects the target density
  for the expansion of the glass. The definitions carry the suffix \<open>_v2\<close>.
\<close>

definition C_v2 :: "(nat \<times> nat \<times> real) list" where
  "C_v2 = [(1, 1, -1.161156), (2, 1, 1.35032), (3, 1, -2.16274),
           (4, 1, 3.65593), (5, 1, -4.13781), (6, 1, 1.7611),
           (1, 2, 0.01017), (2, 2, -0.038437), (3, 2, 0.089056),
           (4, 2, -0.147321), (5, 2, 0.146237), (6, 2, -0.060122),
           (1, 3, 0.00018844), (2, 3, 0.00052018), (3, 3, -0.0035042),
           (4, 3, 0.0076163), (5, 3, -0.0083697), (6, 3, 0.0035687),
           (1, 4, -0.000020673), (2, 4, 0.000085273), (3, 4, -0.00019806),
           (4, 4, 0.00039634), (5, 4, -0.00043168), (6, 4, 0.00020002),
           (1, 5, 0.000000134), (2, 5, -0.00000134), (3, 5, 0.00000522),
           (4, 5, -0.00000939), (5, 5, 0.00000796), (6, 5, -0.00000258)]"

definition rho_p_t_v2 :: "real \<Rightarrow> real \<Rightarrow> real" where
  "rho_p_t_v2 p t = rho_poly C_v2 p t"

definition abvToMassFraction_v2 :: "real \<Rightarrow> real" where
  "abvToMassFraction_v2 abv = abv_solve rho_p_t_v2 abv"

record DensityResult = WithDensity +
  contractionFactor :: real

definition calculateDensity_v2 :: "real \<Rightarrow> real \<Rightarrow> DensityResult" where
  "calculateDensity_v2 abv tempC =
     (let p = abvToMassFraction_v2 abv;
          rho = rho_p_t_v2 p tempC / 1000;
          rho_eth = rho_p_t_v2 1 tempC / 1000;
          rho_wat = rho_p_t_v2 0 tempC / 1000;
          v_eth = p / rho_eth;
          v_wat = (1 - p) / rho_wat;
          v_mix = 1 / rho;
          contractionFactor = (v_eth + v_wat) / v_mix
      in \<lparr> density = toFixed rho 6,
           contractionFactor = toFixed contractionFactor 6 \<rparr>)"

text \<open>
  The local constant \<open>contractionFactor\<close> of \<open>calculateDensity\<close> above, as it is before
  \<open>toFixed(6)\<close> rounds it for the result.
\<close>

definition contractionFactor_unrounded :: "real \<Rightarrow> real \<Rightarrow> real" where
  "contractionFactor_unrounded abv tempC =
     (let p = abvToMassFraction_v2 abv;
          rho = rho_p_t_v2 p tempC / 1000;
          rho_eth = rho_p_t_v2 1 tempC / 1000;
          rho_wat = rho_p_t_v2 0 tempC / 1000;
          v_eth = p / rho_eth;
          v_wat = (1 - p) / rho_wat;
          v_mix = 1 / rho
      in (v_eth + v_wat) / v_mix)"

definition ALPHA :: real where
  "ALPHA = 0.000025"

definition getHydrometerCorrection_v2 :: "real \<Rightarrow> real \<Rightarrow> HydrometerCorrection" where
  "getHydrometerCorrection_v2 readingAbv tempC =
     (let targetRho = rho_p_t_v2 (abvToMassFraction_v2 readingAbv) 20;
          correctedRho = targetRho / (1 - ALPHA * (tempC - 20));
          trueAbv = hyd_solve abvToMassFraction_v2 rho_p_t_v2 correctedRho tempC;
          abvInt = Math_floor (readingAbv / 10) * 10
      in \<lparr> correction = toFixed (trueAbv - readingAbv) 1,
           trueAbv = toFixed trueAbv 1,
           abvRange = (abvInt, abvInt + 10),
           tempRounded = Math_round tempC,
           interpolated = True \<rparr>)"

definition correctHydrometerReading_v2 :: "real \<Rightarrow> real \<Rightarrow> HydrometerReading" where
  "correctHydrometerReading_v2 readingAbv tempC =
     (let result = getHydrometerCorrection_v2 readingAbv tempC
      in HydrometerCorrection.extend result
           \<lparr> outsideTableRange = (tempC < 10 \<or> tempC > 30),
             tempUsed = tempRounded result \<rparr>)"

section \<open>The range validator of the first module (src/unnamed/part_003, lines 344-368)\<close>

definition validateTemperature_v1 :: "real \<Rightarrow> TemperatureCheck" where
  "validateTemperature_v1 tempC =
     (if tempC < 10 \<or> tempC > 30
      then \<lparr> isValid = False, warning = danger,
             message = ''Temperatura fuera de rango seguro (10-30'' @ degree_sign @ ''C)'' \<rparr>
      else if tempC < 15 \<or> tempC > 25
      then \<lparr> isValid = True, warning = caution,
             message = ''Temperatura alejada del est'' @ a_acute @ ''ndar (20'' @ degree_sign @ ''C)'' \<rparr>
      else \<lparr> isValid = True, warning = none, message = '''' \<rparr>)"

section \<open>Decimal places\<close>

text \<open>A number has at most \<open>d\<close> decimal places when \<open>10^d\<close> times it is an integer.\<close>

definition decimals :: "nat \<Rightarrow> real \<Rightarrow> bool" where
  "decimals d x = (x * 10 ^ d \<in> \<int>)"

section \<open>Invariant of the two bisection loops\<close>

text \<open>
  The loop state \<open>(low, high, x)\<close> brackets: \<open>low < high\<close> inside \<open>[lo, hi]\<close>, and the
  current point \<open>x\<close> between \<open>low\<close> and \<open>high\<close> and strictly inside \<open>[lo, hi]\<close>.
\<close>

definition bracket_inv :: "real \<Rightarrow> real \<Rightarrow> real \<times> real \<times> real \<Rightarrow> bool" where
  "bracket_inv lo hi s =
     (case s of (low, high, x) \<Rightarrow>
        lo \<le> low \<and> low < high \<and> high \<le> hi \<and> low \<le> x \<and> x \<le> high \<and> lo < x \<and> x < hi)"

section \<open>Polynomials with integer coefficients and a sign check on a box\<close>

text \<open>
  The density is a polynomial in the mass fraction and the temperature offset. Its
  monotonicity and the bounds the solvers rely on are decided by computation: a polynomial
  is a list of integer coefficients (lowest power first), a polynomial in two variables a
  list of such rows (one row per power of the second variable), and a checker proves a
  polynomial negative on the square \<open>[-1, 1] \<times> [-1, 1]\<close> by bounding it with its
  coefficients and halving the square where the bound is not enough.
\<close>

text \<open>Evaluation at real points.\<close>

fun ipeval :: "int list \<Rightarrow> real \<Rightarrow> real" where
  "ipeval [] x = 0"
| "ipeval (a # cs) x = of_int a + x * ipeval cs x"

fun ipeval2 :: "int list list \<Rightarrow> real \<Rightarrow> real \<Rightarrow> real" where
  "ipeval2 [] x y = 0"
| "ipeval2 (r # rs) x y = ipeval r x + y * ipeval2 rs x y"

text \<open>Sum; \<open>ishift s\<close> substitutes \<open>x + s\<close> for \<open>x\<close>.\<close>

fun iadd :: "int list \<Rightarrow> int list \<Rightarrow> int list" where
  "iadd [] ys = ys"
| "iadd (x # xs) [] = x # xs"
| "iadd (x # xs) (y # ys) = (x + y) # iadd xs ys"

definition ishift_step :: "int \<Rightarrow> int \<Rightarrow> int list \<Rightarrow> int list" where
  "ishift_step s a r = iadd (iadd [a] (map ((*) s) r)) (0 # r)"

fun ishift :: "int \<Rightarrow> int list \<Rightarrow> int list" where
  "ishift s [] = []"
| "ishift s (a # cs) = ishift_step s a (ishift s cs)"

text \<open>
  \<open>ihalve n\<close> substitutes \<open>x / 2\<close> for \<open>x\<close> and multiplies by \<open>2 ^ n\<close> (for a list of at most
  \<open>n + 1\<close> coefficients); \<open>iscale_from s 1\<close> substitutes \<open>s * x\<close>.
\<close>

fun ihalve :: "nat \<Rightarrow> int list \<Rightarrow> int list" where
  "ihalve n [] = []"
| "ihalve n (a # cs) = a * 2 ^ n # ihalve (n - 1) cs"

fun iscale_from :: "int \<Rightarrow> int \<Rightarrow> int list \<Rightarrow> int list" where
  "iscale_from s w [] = []"
| "iscale_from s w (a # cs) = a * w # iscale_from s (w * s) cs"

text \<open>The same operations on the second variable of a polynomial in two variables.\<close>

fun iadd2 :: "int list list \<Rightarrow> int list list \<Rightarrow> int list list" where
  "iadd2 [] ys = ys"
| "iadd2 (x # xs) [] = x # xs"
| "iadd2 (x # xs) (y # ys) = iadd x y # iadd2 xs ys"

definition ishift2_step :: "int \<Rightarrow> int list \<Rightarrow> int list list \<Rightarrow> int list list" where
  "ishift2_step s a r = iadd2 (iadd2 [a] (map (map ((*) s)) r)) ([] # r)"

fun ishift2 :: "int \<Rightarrow> int list list \<Rightarrow> int list list" where
  "ishift2 s [] = []"
| "ishift2 s (a # rs) = ishift2_step s a (ishift2 s rs)"

fun ihalve2 :: "nat \<Rightarrow> int list list \<Rightarrow> int list list" where
  "ihalve2 n [] = []"
| "ihalve2 n (r # rs) = map ((*) (2 ^ n)) r # ihalve2 (n - 1) rs"

fun iscale2_from :: "int \<Rightarrow> int \<Rightarrow> int list list \<Rightarrow> int list list" where
  "iscale2_from s w [] = []"
| "iscale2_from s w (r # rs) = map ((*) w) r # iscale2_from s (w * s) rs"

text \<open>
  The two halves of the square in the first variable (\<open>x = (x' + s) / 2\<close> with \<open>s = 1\<close> or
  \<open>s = -1\<close>) and in the second, each again over \<open>[-1, 1] \<times> [-1, 1]\<close> and up to a positive
  factor.
\<close>

fun maxlen :: "int list list \<Rightarrow> nat" where
  "maxlen [] = 0"
| "maxlen (r # rs) = max (length r) (maxlen rs)"

definition child_p :: "int \<Rightarrow> int list list \<Rightarrow> int list list" where
  "child_p s q = map (\<lambda>r. ishift s (ihalve (maxlen q - 1) r)) q"

definition child_e :: "int \<Rightarrow> int list list \<Rightarrow> int list list" where
  "child_e s q = ishift2 s (ihalve2 (length q - 1) q)"

text \<open>
  On the square a polynomial is at most its constant coefficient plus the absolute values
  of all the others.
\<close>

fun abs_sum :: "int list \<Rightarrow> int" where
  "abs_sum [] = 0"
| "abs_sum (a # cs) = \<bar>a\<bar> + abs_sum cs"

fun abs_sum2 :: "int list list \<Rightarrow> int" where
  "abs_sum2 [] = 0"
| "abs_sum2 (r # rs) = abs_sum r + abs_sum2 rs"

fun c00 :: "int list list \<Rightarrow> int" where
  "c00 [] = 0"
| "c00 ([] # rs) = 0"
| "c00 ((a # cs) # rs) = a"

definition iub :: "int list list \<Rightarrow> int" where
  "iub q = c00 q + (abs_sum2 q - \<bar>c00 q\<bar>)"

text \<open>
  The checker: the bound decides, or the square is halved in the variable that carries
  more of the coefficients, at most \<open>n\<close> times in a row.
\<close>

fun p_var :: "int list list \<Rightarrow> int" where
  "p_var [] = 0"
| "p_var (r # rs) = abs_sum (tl r) + p_var rs"

definition e_var :: "int list list \<Rightarrow> int" where
  "e_var q = abs_sum2 (tl q)"

fun icheck :: "nat \<Rightarrow> int list list \<Rightarrow> bool" where
  "icheck 0 q = (iub q < 0)"
| "icheck (Suc n) q =
     (if iub q < 0 then True
      else if e_var q \<le> p_var q
      then (if icheck n (child_p 1 q) then icheck n (child_p (- 1) q) else False)
      else (if icheck n (child_e 1 q) then icheck n (child_e (- 1) q) else False))"

text \<open>Derivatives in the first variable (row by row, \<open>map ideriv\<close>) and in the second.\<close>

fun ideriv :: "int list \<Rightarrow> int list" where
  "ideriv [] = []"
| "ideriv (a # cs) = iadd cs (0 # ideriv cs)"


text \<open>Products.\<close>

fun imul :: "int list \<Rightarrow> int list \<Rightarrow> int list" where
  "imul [] ys = []"
| "imul (a # xs) ys = iadd (map ((*) a) ys) (0 # imul xs ys)"

fun imul2 :: "int list list \<Rightarrow> int list list \<Rightarrow> int list list" where
  "imul2 [] ys = []"
| "imul2 (r # xs) ys = iadd2 (map (imul r) ys) ([] # imul2 xs ys)"

text \<open>
  The box \<open>0 \<le> p \<le> 1\<close>, \<open>dmid - dhalf \<le> d \<le> dmid + dhalf\<close> brought to the square:
  \<open>p = (x + 1) / 2\<close> and \<open>d = dmid + dhalf * y\<close>.
\<close>

definition to_unit :: "int \<Rightarrow> int \<Rightarrow> int list list \<Rightarrow> int list list" where
  "to_unit dmid dhalf q = iscale2_from dhalf 1 (ishift2 dmid (child_p 1 q))"

text \<open>
  The density polynomial of each module, times \<open>10 ^ 18\<close>: row \<open>j\<close> holds the coefficients
  of \<open>dt ^ j\<close>, that is \<open>A\<close> for \<open>j = 0\<close>, and \<open>B ! j\<close> followed by the cross terms \<open>(i, j, _)\<close>
  for \<open>i = 1, ..., 6\<close> otherwise.
\<close>

definition R_C :: "int list list" where
  "R_C =
    [[998201230000000000000, -192976949500000000000, 389123895800000000000,
      -1668103923000000000000, 13522154410000000000000, -88292783880000000000000,
      306287404200000000000000, -613838123400000000000000, 747017299800000000000000,
      -547846135400000000000000, 223446033400000000000000, -39032854260000000000000],
     [-206185130000000000, 169117210000000000, -203698350000000000, 711750790000000000,
      -1244365700000000000, 892344770000000000, -222112160000000000],
     [-5268254200000000, -10261860000000, 3122200400000000, -13656474000000000,
      27466369000000000, -35881470000000000, 23377377000000000],
     [36130013000000, -1085921700000, -123145990000000, 593763450000000, -1487506000000000,
      2135904500000000, -1775562800000000],
     [-389577020000, -18586393000, 1630665000000, -8613356000000, 24603699000000,
      -41698377000000, 40143198000000],
     [7169354000, 593635440, -11111394000, 61058245000, -184281280000, 333019560000,
      -354183670000],
     [-99739231]]"

definition R_C_v2 :: "int list list" where
  "R_C_v2 =
    [[998201230000000000000, -192976949500000000000, 389123895800000000000,
      -1668103923000000000000, 13522154410000000000000, -88292783880000000000000,
      306287404200000000000000, -613838123400000000000000, 747017299800000000000000,
      -547846135400000000000000, 223446033400000000000000, -39032854260000000000000],
     [-206185130000000000, -1161156000000000000, 1350320000000000000, -2162740000000000000,
      3655930000000000000, -4137810000000000000, 1761100000000000000],
     [-5268254200000000, 10170000000000000, -38437000000000000, 89056000000000000,
      -147321000000000000, 146237000000000000, -60122000000000000],
     [36130013000000, 188440000000000, 520180000000000, -3504200000000000, 7616300000000000,
      -8369700000000000, 3568700000000000],
     [-389577020000, -20673000000000, 85273000000000, -198060000000000, 396340000000000,
      -431680000000000, 200020000000000],
     [7169354000, 134000000000, -1340000000000, 5220000000000, -9390000000000, 7960000000000,
      -2580000000000],
     [-99739231]]"

section \<open>Notions for the analysis of the two solvers\<close>

text \<open>
  The volume fraction that \<open>abvToMassFraction\<close> computes for a candidate \<open>p\<close> and compares
  with its target, and that \<open>massFractionToAbv\<close> returns times 100; and its polynomial
  (times \<open>789.24 * 10 ^ 18\<close>).
\<close>

definition vol_frac :: "real \<Rightarrow> real" where
  "vol_frac p = (p * rho_p_t p 20) / RHO_ETH_20"

definition V_20 :: "int list" where
  "V_20 = 0 # hd R_C"

text \<open>
  After \<open>i\<close> passes of the loop of \<open>abvToMassFraction\<close>: the bracket has width \<open>2 ^ -i\<close>, the
  point returned is one of its ends, the volume fraction at the lower end is below the
  target, and at the upper end it is not (unless that end is still 1).
\<close>

definition abv_inv :: "real \<Rightarrow> nat \<Rightarrow> real \<times> real \<times> real \<Rightarrow> bool" where
  "abv_inv targetV i s =
     (case s of (low, high, p) \<Rightarrow>
        0 \<le> low \<and> high \<le> 1 \<and> high - low = 1 / 2 ^ i \<and> (i = 0 \<or> p = low \<or> p = high) \<and>
        vol_frac low < targetV \<and> (high = 1 \<or> targetV \<le> vol_frac high))"

text \<open>
  Two runs of that loop, the first with the smaller target, are in the same state or the
  bracket of the first lies to the left of the bracket of the second.
\<close>

definition diverged :: "real \<times> real \<times> real \<Rightarrow> real \<times> real \<times> real \<Rightarrow> bool" where
  "diverged sa sb = (sa = sb \<or> fst (snd sa) \<le> fst sb)"

text \<open>
  After \<open>i\<close> passes of the loop of \<open>getHydrometerCorrection\<close> at 20 degrees on a reading \<open>x\<close>:
  the bracket has width \<open>100 / 2 ^ i\<close> and holds \<open>x\<close>, up to \<open>0.0002\<close> at its upper end.
\<close>

definition hyd_inv :: "real \<Rightarrow> nat \<Rightarrow> real \<times> real \<times> real \<Rightarrow> bool" where
  "hyd_inv x i s =
     (case s of (low, high, y) \<Rightarrow>
        0 \<le> low \<and> low \<le> x \<and> x - 2 / 10 ^ 4 < high \<and> high \<le> 100 \<and> low < high \<and>
        high - low = 100 / 2 ^ i \<and> (i = 0 \<or> y = low \<or> y = high))"

section \<open>The polynomial behind the contraction factor\<close>

text \<open>
  For a polynomial \<open>q\<close> in two variables, with \<open>E(p) = ipeval2 q p d\<close>: \<open>chord_gap q\<close> is the
  polynomial \<open>W\<close> with \<open>E(p) = (1 - p) * E(0) + p * E(1) - p * (1 - p) * W(p)\<close> (its rows are
  sums of the coefficients from a power on), \<open>ideal_mix q\<close> is \<open>p * E(0) + (1 - p) * E(1)\<close>,
  \<open>end_diff q\<close> is \<open>E(0) - E(1)\<close>, and \<open>contraction_poly q\<close> is
  \<open>W * (p * E(0) + (1 - p) * E(1)) - (E(0) - E(1)) ^ 2\<close>. The contraction ratio exceeds 1 where
  the last one is negative. \<open>end_0 q\<close> is \<open>E(0)\<close>, \<open>end_1 q\<close> is \<open>E(1)\<close>, and
  \<open>contraction_margin k q\<close> is \<open>k\<close> times the contraction polynomial plus \<open>E(0) * E(1)\<close>: where
  it is negative, the contraction ratio exceeds 1 by more than \<open>p * (1 - p) / k\<close>.
\<close>

fun isuffix :: "int list \<Rightarrow> int list" where
  "isuffix [] = []"
| "isuffix (a # cs) = (a + sum_list cs) # isuffix cs"

definition ihead :: "int list \<Rightarrow> int" where
  "ihead r = (case r of [] \<Rightarrow> 0 | a # cs \<Rightarrow> a)"

definition chord_gap :: "int list list \<Rightarrow> int list list" where
  "chord_gap q = map (\<lambda>r. isuffix (drop 2 r)) q"

definition ideal_mix :: "int list list \<Rightarrow> int list list" where
  "ideal_mix q = map (\<lambda>r. [sum_list r, ihead r - sum_list r]) q"

definition end_diff :: "int list list \<Rightarrow> int list list" where
  "end_diff q = map (\<lambda>r. [ihead r - sum_list r]) q"

definition contraction_poly :: "int list list \<Rightarrow> int list list" where
  "contraction_poly q =
     iadd2 (imul2 (chord_gap q) (ideal_mix q))
       (imul2 (map (map ((*) (- 1))) (end_diff q)) (end_diff q))"

definition end_0 :: "int list list \<Rightarrow> int list list" where
  "end_0 q = map (\<lambda>r. [ihead r]) q"

definition end_1 :: "int list list \<Rightarrow> int list list" where
  "end_1 q = map (\<lambda>r. [sum_list r]) q"

definition contraction_margin :: "int \<Rightarrow> int list list \<Rightarrow> int list list" where
  "contraction_margin k q =
     iadd2 (map (map ((*) k)) (contraction_poly q)) (imul2 (end_0 q) (end_1 q))"

section \<open>Decimal rounding\<close>

lemma toFixed_decimals: "decimals d (toFixed x d)"
  by (simp add: decimals_def toFixed_def)

lemma toFixed_err: "\<bar>toFixed x d - x\<bar> \<le> 1 / (2 * 10 ^ d)"
proof -
  have key: "\<bar>of_int \<lfloor>y + 1 / 2\<rfloor> / 10 ^ d - y / 10 ^ d\<bar> \<le> 1 / (2 * 10 ^ d)" for y :: real
  proof -
    have "\<bar>of_int \<lfloor>y + 1 / 2\<rfloor> - y\<bar> \<le> 1 / 2" by linarith
    then have "\<bar>of_int \<lfloor>y + 1 / 2\<rfloor> - y\<bar> / 10 ^ d \<le> (1 / 2) / 10 ^ d"
      by (rule divide_right_mono) simp
    then show ?thesis by (simp add: diff_divide_distrib [symmetric])
  qed
  show ?thesis
  proof (cases "x < 0")
    case True
    have "\<bar>toFixed x d - x\<bar> = \<bar>of_int \<lfloor>(- x) * 10 ^ d + 1 / 2\<rfloor> / 10 ^ d - ((- x) * 10 ^ d) / 10 ^ d\<bar>"
      using True by (simp add: toFixed_def)
    then show ?thesis using key [of "(- x) * 10 ^ d"] by simp
  next
    case False
    have "\<bar>toFixed x d - x\<bar> = \<bar>of_int \<lfloor>x * 10 ^ d + 1 / 2\<rfloor> / 10 ^ d - (x * 10 ^ d) / 10 ^ d\<bar>"
      using False by (simp add: toFixed_def)
    then show ?thesis using key [of "x * 10 ^ d"] by simp
  qed
qed

lemma toFixed_nonneg: "0 \<le> x \<Longrightarrow> 0 \<le> toFixed x d"
  by (simp add: toFixed_def)

lemma toFixed_le_int:
  assumes "0 \<le> x" "x \<le> of_int n"
  shows "toFixed x d \<le> of_int n"
proof -
  have "x * 10 ^ d + 1 / 2 \<le> of_int (n * 10 ^ d) + 1 / 2"
    using assms by (simp add: mult_right_mono)
  then have "\<lfloor>x * 10 ^ d + 1 / 2\<rfloor> \<le> \<lfloor>(of_int (n * 10 ^ d) :: real) + 1 / 2\<rfloor>"
    by (rule floor_mono)
  also have "\<dots> = n * 10 ^ d" by linarith
  finally have "(of_int \<lfloor>x * 10 ^ d + 1 / 2\<rfloor> :: real) \<le> of_int (n * 10 ^ d)"
    by linarith
  then have "(of_int \<lfloor>x * 10 ^ d + 1 / 2\<rfloor> :: real) / 10 ^ d \<le> of_int n"
    by (simp add: divide_le_eq)
  then show ?thesis using assms by (simp add: toFixed_def)
qed

lemma decimals_diff: "decimals d x \<Longrightarrow> decimals d y \<Longrightarrow> decimals d (x - y)"
  by (simp add: decimals_def left_diff_distrib)

lemma Ints_fraction_dvd:
  assumes "(of_int n / of_int m :: real) \<in> \<int>" and "m \<noteq> 0"
  shows "m dvd n"
proof -
  obtain k :: int where "(of_int n / of_int m :: real) = of_int k"
    using assms(1) by (auto elim: Ints_cases)
  then have "(of_int n :: real) = of_int (k * m)" using assms(2) by (simp add: field_simps)
  then have "n = k * m" by (simp only: of_int_eq_iff)
  then show ?thesis by simp
qed

lemma abs_chain:
  fixes a b c :: real
  shows "\<bar>a - b\<bar> \<le> x \<Longrightarrow> \<bar>b - c\<bar> \<le> y \<Longrightarrow> \<bar>a - c\<bar> \<le> x + y"
  by linarith

lemma toFixed_pair_err: "\<bar>toFixed x d - (r + toFixed (x - r) d)\<bar> \<le> 1 / 10 ^ d"
proof -
  have "\<bar>toFixed x d - x\<bar> \<le> 1 / (2 * 10 ^ d)" "\<bar>toFixed (x - r) d - (x - r)\<bar> \<le> 1 / (2 * 10 ^ d)"
    by (rule toFixed_err)+
  then have "\<bar>toFixed x d - (r + toFixed (x - r) d)\<bar> \<le> 1 / (2 * 10 ^ d) + 1 / (2 * 10 ^ d)"
    by linarith
  then show ?thesis by (simp add: field_simps)
qed

lemma product_rounding:
  fixes m p F q :: real
  assumes "0 \<le> m" "0 \<le> q" "\<bar>F - m\<bar> \<le> a" "\<bar>q - p\<bar> \<le> b"
  shows "\<bar>m * p - F * q\<bar> \<le> a * q + b * (F + a)"
proof -
  have b0: "0 \<le> b" using assms by linarith
  have eq: "m * p - F * q = m * (p - q) + (m - F) * q" by (simp add: algebra_simps)
  have "\<bar>m * (p - q)\<bar> = m * \<bar>p - q\<bar>" using assms(1) by (simp add: abs_mult)
  also have "\<dots> \<le> m * b" using assms(1,4) by (intro mult_left_mono) linarith+
  also have "\<dots> \<le> (F + a) * b" using assms(3) b0 by (intro mult_right_mono) linarith+
  finally have 1: "\<bar>m * (p - q)\<bar> \<le> b * (F + a)" by (simp add: mult.commute)
  have "\<bar>(m - F) * q\<bar> = \<bar>m - F\<bar> * q" using assms(2) by (simp add: abs_mult)
  also have "\<dots> \<le> a * q" using assms(2,3) by (intro mult_right_mono) linarith+
  finally have 2: "\<bar>(m - F) * q\<bar> \<le> a * q" .
  show ?thesis unfolding eq using 1 2 by linarith
qed

section \<open>The bisection loops keep their bracket\<close>

lemma hyd_step_bracket:
  "bracket_inv lo hi s \<Longrightarrow> bracket_inv lo hi (hyd_step f rho target tempC i s)"
  by (cases s) (auto simp: bracket_inv_def hyd_step_def Let_def)

lemma hyd_fold_bracket:
  "bracket_inv lo hi s \<Longrightarrow> bracket_inv lo hi (fold (hyd_step f rho target tempC) xs s)"
  by (induction xs arbitrary: s) (simp_all add: hyd_step_bracket)

lemma hyd_solve_range: "0 < hyd_solve f rho target tempC \<and> hyd_solve f rho target tempC < 100"
proof -
  have "bracket_inv 0 100 (fold (hyd_step f rho target tempC) [0..<30] (0, 100, 50))"
    by (rule hyd_fold_bracket) (simp add: bracket_inv_def)
  then show ?thesis
    by (auto simp: hyd_solve_def bracket_inv_def split: prod.splits)
qed

lemma abv_step_bracket:
  "bracket_inv lo hi s \<Longrightarrow> bracket_inv lo hi (abv_step rho targetV i s)"
  by (cases s) (auto simp: bracket_inv_def abv_step_def Let_def)

lemma abv_fold_bracket:
  "bracket_inv lo hi s \<Longrightarrow> bracket_inv lo hi (fold (abv_step rho targetV) xs s)"
  by (induction xs arbitrary: s) (simp_all add: abv_step_bracket)

lemma abv_solve_range: "0 \<le> abv_solve rho abv \<and> abv_solve rho abv \<le> 1"
proof -
  have "bracket_inv 0 1 (fold (abv_step rho (abv / 100)) [0..<40] (0, 1, 0.5))"
    by (rule abv_fold_bracket) (simp add: bracket_inv_def)
  then show ?thesis
    by (auto simp: abv_solve_def bracket_inv_def Let_def split: prod.splits)
qed

lemma abv_solve_pos:
  assumes "0 < abv"
  shows "0 < abv_solve rho abv"
proof -
  have "bracket_inv 0 1 (fold (abv_step rho (abv / 100)) [0..<40] (0, 1, 0.5))"
    by (rule abv_fold_bracket) (simp add: bracket_inv_def)
  then show ?thesis using assms
    by (auto simp: abv_solve_def bracket_inv_def Let_def split: prod.splits)
qed

section \<open>The polynomial at the reference temperature\<close>

lemma upt_0_12: "[0..<12] = [0, 1, 2, 3, 4, 5, 6, 7, 8, 9, 10, 11]"
  by (simp add: upt_rec)

lemma upt_1_7: "[1..<7] = [1, 2, 3, 4, 5, 6]"
  by (simp add: upt_rec)

lemma upt_0_40:
  "[0..<40] = [0, 1, 2, 3, 4, 5, 6, 7, 8, 9, 10, 11, 12, 13, 14, 15, 16, 17, 18, 19,
               20, 21, 22, 23, 24, 25, 26, 27, 28, 29, 30, 31, 32, 33, 34, 35, 36, 37, 38, 39]"
  by (simp add: upt_rec)

lemma rho_p_t_20:
  "rho_p_t p 20 = 998.20123 + p * (-192.9769495 + p * (389.1238958 + p * (-1668.103923 +
     p * (13522.15441 + p * (-88292.78388 + p * (306287.4042 + p * (-613838.1234 +
     p * (747017.2998 + p * (-547846.1354 + p * (223446.0334 + p * -39032.85426))))))))))"
  by (simp add: rho_p_t_def rho_poly_def A_def B_def C_def upt_0_12 upt_1_7 eval_nat_numeral
      algebra_simps)

lemma density_0_20: "calculateDensity 0 20 = 0.998201"
  by (simp add: calculateDensity_def abvToMassFraction_def abv_solve_def rho_p_t_20 toFixed_def)

lemma density_100_20: "calculateDensity 100 20 = 0.789239"
  by (simp add: calculateDensity_def abvToMassFraction_def abv_solve_def rho_p_t_20 toFixed_def)

lemma abvToMassFraction_96: "abvToMassFraction 96 = 1031765672765 / 1099511627776"
  by (simp add: abvToMassFraction_def abv_solve_def upt_0_40 abv_step_def rho_p_t_20
      RHO_ETH_20_def Let_def)

lemma density_96_20: "calculateDensity 96 20 = 0.807419"
  by (simp add: calculateDensity_def abvToMassFraction_96 rho_p_t_20 toFixed_def)

section \<open>Reference values of the density\<close>

text \<open>
  Claim C1. At 20 degrees the density returned for 0, 100 and 96 percent by volume is
  within one unit of the sixth decimal place of 0.998201, 0.789239 and 0.807419 g/mL
  (it is these numbers exactly).
\<close>

theorem density_reference_values:
  "\<bar>calculateDensity 0 20 - 0.998201\<bar> \<le> 1 / 10 ^ 6 \<and>
   \<bar>calculateDensity 100 20 - 0.789239\<bar> \<le> 1 / 10 ^ 6 \<and>
   \<bar>calculateDensity 96 20 - 0.807419\<bar> \<le> 1 / 10 ^ 6"
  by (simp add: density_0_20 density_100_20 density_96_20)

section \<open>Mass balance of the dilution\<close>

text \<open>
  Claim C4. For a positive source mass and \<open>0 < targetAbv < sourceAbv \<le> 100\<close>, the fields
  of the dilution record satisfy the mass balance up to the rounding of the fields
  (half a unit of the last decimal of each: 0.005 for \<open>ethanolMassG\<close>, 0.05 for
  \<open>finalMassG\<close> and \<open>waterToAddG\<close>, 0.00005 for the two mass fractions):
  \<open>ethanolMassG\<close> is \<open>sourceMassG * sourceMassFraction\<close> within
  \<open>0.005 + 0.00005 * sourceMassG\<close>, it is \<open>finalMassG * targetMassFraction\<close> within
  \<open>0.005 + 0.05 * targetMassFraction + 0.00005 * (finalMassG + 0.05)\<close>, and \<open>waterToAddG\<close>
  is \<open>finalMassG - sourceMassG\<close> within 0.1.
\<close>

theorem dilution_mass_balance:
  assumes "0 < sourceMassG" and "0 < targetAbv" and "targetAbv < sourceAbv" and "sourceAbv \<le> 100"
  shows "let r = calculateDilutionWater sourceMassG sourceAbv targetAbv in
     \<bar>ethanolMassG r - sourceMassG * sourceMassFraction r\<bar> \<le> 0.005 + 0.00005 * sourceMassG \<and>
     \<bar>ethanolMassG r - finalMassG r * targetMassFraction r\<bar>
        \<le> 0.005 + 0.05 * targetMassFraction r + 0.00005 * (finalMassG r + 0.05) \<and>
     \<bar>waterToAddG r - (finalMassG r - sourceMassG)\<bar> \<le> 0.1"
proof -
  define p1 where "p1 = abvToMassFraction sourceAbv"
  define p2 where "p2 = abvToMassFraction targetAbv"
  define m2 where "m2 = (sourceMassG * p1) / p2"
  have p2: "0 < p2" unfolding p2_def abvToMassFraction_def using assms(2) by (rule abv_solve_pos)
  have p1: "0 \<le> p1" unfolding p1_def abvToMassFraction_def using abv_solve_range by simp
  have m2: "0 \<le> m2" unfolding m2_def using assms(1) p1 p2 by simp
  have E: "sourceMassG * p1 = m2 * p2" unfolding m2_def using p2 by simp
  have e: "\<bar>toFixed (sourceMassG * p1) 2 - sourceMassG * p1\<bar> \<le> 1 / 200"
    using toFixed_err [of "sourceMassG * p1" 2] by simp
  have q1: "\<bar>toFixed p1 4 - p1\<bar> \<le> 1 / 20000" using toFixed_err [of p1 4] by simp
  have q2: "\<bar>toFixed p2 4 - p2\<bar> \<le> 1 / 20000" using toFixed_err [of p2 4] by simp
  have F: "\<bar>toFixed m2 1 - m2\<bar> \<le> 1 / 20" using toFixed_err [of m2 1] by simp
  have W: "\<bar>toFixed (m2 - sourceMassG) 1 - (m2 - sourceMassG)\<bar> \<le> 1 / 20"
    using toFixed_err [of "m2 - sourceMassG" 1] by simp
  have "\<bar>sourceMassG * p1 - sourceMassG * toFixed p1 4\<bar> = sourceMassG * \<bar>toFixed p1 4 - p1\<bar>"
    using assms(1) by (simp add: abs_mult right_diff_distrib [symmetric] abs_minus_commute)
  also have "\<dots> \<le> sourceMassG * (1 / 20000)"
    using assms(1) q1 by (intro mult_left_mono) linarith+
  finally have "\<bar>sourceMassG * p1 - sourceMassG * toFixed p1 4\<bar> \<le> sourceMassG / 20000"
    by simp
  with e have c1: "\<bar>toFixed (sourceMassG * p1) 2 - sourceMassG * toFixed p1 4\<bar>
      \<le> 1 / 200 + sourceMassG / 20000"
    by (rule abs_chain)
  have "\<bar>m2 * p2 - toFixed m2 1 * toFixed p2 4\<bar>
      \<le> (1 / 20) * toFixed p2 4 + (1 / 20000) * (toFixed m2 1 + 1 / 20)"
    using m2 toFixed_nonneg [of p2 4] p2 F q2 by (intro product_rounding) linarith+
  then have "\<bar>sourceMassG * p1 - toFixed m2 1 * toFixed p2 4\<bar>
      \<le> toFixed p2 4 / 20 + (toFixed m2 1 + 1 / 20) / 20000"
    unfolding E by simp
  with e have c2: "\<bar>toFixed (sourceMassG * p1) 2 - toFixed m2 1 * toFixed p2 4\<bar>
      \<le> 1 / 200 + (toFixed p2 4 / 20 + (toFixed m2 1 + 1 / 20) / 20000)"
    by (rule abs_chain)
  have "\<bar>(m2 - sourceMassG) - (toFixed m2 1 - sourceMassG)\<bar> \<le> 1 / 20"
    using F by (simp add: abs_minus_commute)
  with W have "\<bar>toFixed (m2 - sourceMassG) 1 - (toFixed m2 1 - sourceMassG)\<bar> \<le> 1 / 20 + 1 / 20"
    by (rule abs_chain)
  then have c3: "\<bar>toFixed (m2 - sourceMassG) 1 - (toFixed m2 1 - sourceMassG)\<bar> \<le> 1 / 10"
    by simp
  show ?thesis
    using c1 c2 c3
    by (simp add: calculateDilutionWater_def Let_def p1_def [symmetric] p2_def [symmetric]
        m2_def [symmetric])
qed

theorem dilution_mass_balance_witness:
  "(0::real) < 1000 \<and> (0::real) < 40 \<and> (40::real) < 96 \<and> (96::real) \<le> 100 \<and>
   (let r = calculateDilutionWater 1000 96 40 in
     \<bar>ethanolMassG r - 1000 * sourceMassFraction r\<bar> \<le> 0.005 + 0.00005 * 1000 \<and>
     \<bar>ethanolMassG r - finalMassG r * targetMassFraction r\<bar>
        \<le> 0.005 + 0.05 * targetMassFraction r + 0.00005 * (finalMassG r + 0.05) \<and>
     \<bar>waterToAddG r - (finalMassG r - 1000)\<bar> \<le> 0.1)"
  using dilution_mass_balance [of 1000 40 96] by simp

section \<open>The range validator\<close>

text \<open>
  Claim C9. The warning is \<open>danger\<close> exactly when \<open>t < 10\<close> or \<open>t > 30\<close>, \<open>caution\<close> exactly
  when \<open>10 \<le> t \<le> 30\<close> and (\<open>t < 15\<close> or \<open>t > 25\<close>), \<open>none\<close> otherwise, and \<open>isValid\<close> is false
  exactly in the \<open>danger\<close> case; for the validator of each module.
\<close>

theorem validateTemperature_bands:
  "(warning (validateTemperature t) = danger \<longleftrightarrow> t < 10 \<or> t > 30) \<and>
   (warning (validateTemperature t) = caution \<longleftrightarrow> 10 \<le> t \<and> t \<le> 30 \<and> (t < 15 \<or> t > 25)) \<and>
   (warning (validateTemperature t) = none \<longleftrightarrow> 15 \<le> t \<and> t \<le> 25) \<and>
   (isValid (validateTemperature t) \<longleftrightarrow> warning (validateTemperature t) \<noteq> danger) \<and>
   (warning (validateTemperature_v1 t) = danger \<longleftrightarrow> t < 10 \<or> t > 30) \<and>
   (warning (validateTemperature_v1 t) = caution \<longleftrightarrow> 10 \<le> t \<and> t \<le> 30 \<and> (t < 15 \<or> t > 25)) \<and>
   (warning (validateTemperature_v1 t) = none \<longleftrightarrow> 15 \<le> t \<and> t \<le> 25) \<and>
   (isValid (validateTemperature_v1 t) \<longleftrightarrow> warning (validateTemperature_v1 t) \<noteq> danger)"
  by (auto simp: validateTemperature_def validateTemperature_v1_def)
section \<open>The polynomial checker is sound\<close>

subsection \<open>What the operations compute\<close>

lemma ipeval_iadd: "ipeval (iadd xs ys) x = ipeval xs x + ipeval ys x"
  by (induction xs ys rule: iadd.induct) (simp_all add: algebra_simps)

lemma ipeval_smult: "ipeval (map ((*) s) cs) x = of_int s * ipeval cs x"
  by (induction cs) (simp_all add: algebra_simps)

lemma ipeval_ishift: "ipeval (ishift s cs) x = ipeval cs (x + of_int s)"
  by (induction cs) (simp_all add: ishift_step_def ipeval_iadd ipeval_smult algebra_simps)

lemma ipeval_ihalve: "length cs \<le> Suc n \<Longrightarrow> ipeval (ihalve n cs) x = 2 ^ n * ipeval cs (x / 2)"
proof (induction cs arbitrary: n)
  case Nil
  then show ?case by simp
next
  case (Cons a cs)
  show ?case
  proof (cases cs)
    case Nil
    then show ?thesis by simp
  next
    case (Cons b ds)
    with Cons.prems obtain m where n: "n = Suc m" by (cases n) auto
    have "length cs \<le> Suc m" using Cons.prems n by simp
    then have "ipeval (ihalve m cs) x = 2 ^ m * ipeval cs (x / 2)" by (rule Cons.IH)
    then show ?thesis using n by (simp add: algebra_simps)
  qed
qed

lemma ipeval_iscale_from: "ipeval (iscale_from s w cs) x = of_int w * ipeval cs (of_int s * x)"
  by (induction cs arbitrary: w) (simp_all add: algebra_simps)

lemma ipeval2_iadd2: "ipeval2 (iadd2 xs ys) x y = ipeval2 xs x y + ipeval2 ys x y"
  by (induction xs ys rule: iadd2.induct) (simp_all add: ipeval_iadd algebra_simps)

lemma ipeval2_smult: "ipeval2 (map (map ((*) s)) rs) x y = of_int s * ipeval2 rs x y"
  by (induction rs) (simp_all add: ipeval_smult ring_distribs)

lemma ipeval2_ishift2: "ipeval2 (ishift2 s rs) x y = ipeval2 rs x (y + of_int s)"
  by (induction rs) (simp_all add: ishift2_step_def ipeval2_iadd2 ipeval2_smult algebra_simps)

lemma ipeval2_ihalve2:
  "length rs \<le> Suc n \<Longrightarrow> ipeval2 (ihalve2 n rs) x y = 2 ^ n * ipeval2 rs x (y / 2)"
proof (induction rs arbitrary: n)
  case Nil
  then show ?case by simp
next
  case (Cons r rs)
  show ?case
  proof (cases rs)
    case Nil
    then show ?thesis using ipeval_smult [of "2 ^ n" r x] by simp
  next
    case (Cons b ds)
    with Cons.prems obtain m where n: "n = Suc m" by (cases n) auto
    have "length rs \<le> Suc m" using Cons.prems n by simp
    then have "ipeval2 (ihalve2 m rs) x y = 2 ^ m * ipeval2 rs x (y / 2)" by (rule Cons.IH)
    then show ?thesis using n ipeval_smult [of "2 ^ n" r x] by (simp add: algebra_simps)
  qed
qed

lemma ipeval2_iscale2_from:
  "ipeval2 (iscale2_from s w rs) x y = of_int w * ipeval2 rs x (of_int s * y)"
  by (induction rs arbitrary: w) (simp_all add: ipeval_smult algebra_simps)

lemma ipeval2_map_rows:
  "(\<And>r. r \<in> set q \<Longrightarrow> ipeval (g r) x = c * ipeval r x') \<Longrightarrow>
   ipeval2 (map g q) x y = c * ipeval2 q x' y"
  by (induction q) (simp_all add: algebra_simps)

lemma length_le_maxlen: "r \<in> set q \<Longrightarrow> length r \<le> maxlen q"
  by (induction q) auto

lemma ipeval2_child_p:
  "ipeval2 (child_p s q) x y = 2 ^ (maxlen q - 1) * ipeval2 q ((x + of_int s) / 2) y"
  unfolding child_p_def
proof (rule ipeval2_map_rows)
  fix r assume "r \<in> set q"
  then have "length r \<le> Suc (maxlen q - 1)" using length_le_maxlen [of r q] by simp
  then show "ipeval (ishift s (ihalve (maxlen q - 1) r)) x
      = 2 ^ (maxlen q - 1) * ipeval r ((x + of_int s) / 2)"
    by (simp add: ipeval_ishift ipeval_ihalve)
qed

lemma ipeval2_child_e:
  "ipeval2 (child_e s q) x y = 2 ^ (length q - 1) * ipeval2 q x ((y + of_int s) / 2)"
  by (simp add: child_e_def ipeval2_ishift2 ipeval2_ihalve2)

subsection \<open>Soundness of the sign check\<close>

lemma ipeval_abs: "\<bar>x\<bar> \<le> 1 \<Longrightarrow> \<bar>ipeval cs x\<bar> \<le> of_int (abs_sum cs)"
proof (induction cs)
  case Nil
  then show ?case by simp
next
  case (Cons a cs)
  have "\<bar>x * ipeval cs x\<bar> = \<bar>x\<bar> * \<bar>ipeval cs x\<bar>" by (simp add: abs_mult)
  also have "\<dots> \<le> 1 * of_int (abs_sum cs)"
    using Cons by (intro mult_mono) auto
  finally have "\<bar>x * ipeval cs x\<bar> \<le> of_int (abs_sum cs)" by simp
  then show ?case by simp
qed

lemma ipeval2_abs: "\<bar>x\<bar> \<le> 1 \<Longrightarrow> \<bar>y\<bar> \<le> 1 \<Longrightarrow> \<bar>ipeval2 q x y\<bar> \<le> of_int (abs_sum2 q)"
proof (induction q)
  case Nil
  then show ?case by simp
next
  case (Cons r q)
  have "\<bar>y * ipeval2 q x y\<bar> = \<bar>y\<bar> * \<bar>ipeval2 q x y\<bar>" by (simp add: abs_mult)
  also have "\<dots> \<le> 1 * of_int (abs_sum2 q)"
    using Cons by (intro mult_mono) auto
  finally have "\<bar>y * ipeval2 q x y\<bar> \<le> of_int (abs_sum2 q)" by simp
  moreover have "\<bar>ipeval r x\<bar> \<le> of_int (abs_sum r)" using Cons.prems(1) by (rule ipeval_abs)
  ultimately show ?case by simp
qed

lemma ipeval2_le_iub:
  assumes "\<bar>x\<bar> \<le> 1" "\<bar>y\<bar> \<le> 1"
  shows "ipeval2 q x y \<le> of_int (iub q)"
proof (cases q rule: c00.cases)
  case 1
  then show ?thesis by (simp add: iub_def)
next
  case (2 rs)
  have "\<bar>ipeval2 q x y\<bar> \<le> of_int (abs_sum2 q)" using assms by (rule ipeval2_abs)
  then show ?thesis using 2 by (simp add: iub_def)
next
  case (3 a cs rs)
  have "\<bar>ipeval2 ((0 # cs) # rs) x y\<bar> \<le> of_int (abs_sum2 ((0 # cs) # rs))"
    using assms by (rule ipeval2_abs)
  then show ?thesis using 3 by (simp add: iub_def)
qed

lemma icheck_sound:
  "icheck n q \<Longrightarrow> \<bar>x\<bar> \<le> 1 \<Longrightarrow> \<bar>y\<bar> \<le> 1 \<Longrightarrow> ipeval2 q x y < 0"
proof (induction n arbitrary: q x y)
  case 0
  then have "iub q < 0" by simp
  then have "(of_int (iub q) :: real) < 0" by simp
  with ipeval2_le_iub [OF "0.prems"(2,3), of q] show ?case by linarith
next
  case (Suc n)
  show ?case
  proof (cases "iub q < 0")
    case True
    then have "(of_int (iub q) :: real) < 0" by simp
    with ipeval2_le_iub [OF Suc.prems(2,3), of q] show ?thesis by linarith
  next
    case False
    show ?thesis
    proof (cases "e_var q \<le> p_var q")
      case True
      with False Suc.prems(1) have ch: "icheck n (child_p 1 q)" "icheck n (child_p (- 1) q)"
        by (auto split: if_splits)
      show ?thesis
      proof (cases "0 \<le> x")
        case True
        have "ipeval2 (child_p 1 q) (2 * x - 1) y < 0"
          using ch(1) True Suc.prems(2,3) by (intro Suc.IH) (auto simp: abs_le_iff)
        then have "2 ^ (maxlen q - 1) * ipeval2 q x y < 0" by (simp add: ipeval2_child_p)
        then show ?thesis by (simp add: mult_less_0_iff)
      next
        case False
        have "ipeval2 (child_p (- 1) q) (2 * x + 1) y < 0"
          using ch(2) False Suc.prems(2,3) by (intro Suc.IH) (auto simp: abs_le_iff)
        then have "2 ^ (maxlen q - 1) * ipeval2 q x y < 0" by (simp add: ipeval2_child_p)
        then show ?thesis by (simp add: mult_less_0_iff)
      qed
    next
      case nope: False
      with False Suc.prems(1) have ch: "icheck n (child_e 1 q)" "icheck n (child_e (- 1) q)"
        by (auto split: if_splits)
      show ?thesis
      proof (cases "0 \<le> y")
        case True
        have "ipeval2 (child_e 1 q) x (2 * y - 1) < 0"
          using ch(1) True Suc.prems(2,3) by (intro Suc.IH) (auto simp: abs_le_iff)
        then have "2 ^ (length q - 1) * ipeval2 q x y < 0" by (simp add: ipeval2_child_e)
        then show ?thesis by (simp add: mult_less_0_iff)
      next
        case False
        have "ipeval2 (child_e (- 1) q) x (2 * y + 1) < 0"
          using ch(2) False Suc.prems(2,3) by (intro Suc.IH) (auto simp: abs_le_iff)
        then have "2 ^ (length q - 1) * ipeval2 q x y < 0" by (simp add: ipeval2_child_e)
        then show ?thesis by (simp add: mult_less_0_iff)
      qed
    qed
  qed
qed

lemma to_unit_sound:
  assumes "icheck n (to_unit dmid dhalf q)" and "0 < dhalf"
    and "0 \<le> p" "p \<le> 1" and "\<bar>d - of_int dmid\<bar> \<le> of_int dhalf"
  shows "ipeval2 q p d < 0"
proof -
  define x where "x = 2 * p - 1"
  define y where "y = (d - of_int dmid) / of_int dhalf"
  have x: "\<bar>x\<bar> \<le> 1" using assms(3,4) by (simp add: x_def abs_le_iff)
  have y: "\<bar>y\<bar> \<le> 1" using assms(2,5) by (simp add: y_def)
  have "ipeval2 (to_unit dmid dhalf q) x y < 0" using assms(1) x y by (rule icheck_sound)
  moreover have "of_int dhalf * y + of_int dmid = d" using assms(2) by (simp add: y_def)
  moreover have "(x + 1) / 2 = p" by (simp add: x_def)
  ultimately have "2 ^ (maxlen q - 1) * ipeval2 q p d < 0"
    by (simp add: to_unit_def ipeval2_iscale2_from ipeval2_ishift2 ipeval2_child_p)
  then show ?thesis by (simp add: mult_less_0_iff)
qed

subsection \<open>Derivatives and products\<close>

lemma DERIV_ipeval: "(ipeval cs has_field_derivative ipeval (ideriv cs) x) (at x)"
proof (induction cs)
  case Nil
  show ?case by simp
next
  case (Cons a cs)
  have "((\<lambda>x. x * ipeval cs x) has_field_derivative
      (1 * ipeval cs x + ipeval (ideriv cs) x * x)) (at x)"
    by (rule DERIV_mult [OF DERIV_ident Cons.IH])
  then have "((\<lambda>x. of_int a + x * ipeval cs x) has_field_derivative
      (0 + (1 * ipeval cs x + ipeval (ideriv cs) x * x))) (at x)"
    by (rule DERIV_add [OF DERIV_const])
  then show ?case by (simp add: ipeval_iadd mult.commute)
qed

lemma DERIV_ipeval2_fst:
  "((\<lambda>x. ipeval2 q x y) has_field_derivative ipeval2 (map ideriv q) x y) (at x)"
proof (induction q)
  case Nil
  show ?case by simp
next
  case (Cons r q)
  have "((\<lambda>x. y * ipeval2 q x y) has_field_derivative
      (y * ipeval2 (map ideriv q) x y)) (at x)"
    by (rule DERIV_cmult [OF Cons.IH])
  then have "((\<lambda>x. ipeval r x + y * ipeval2 q x y) has_field_derivative
      (ipeval (ideriv r) x + y * ipeval2 (map ideriv q) x y)) (at x)"
    by (rule DERIV_add [OF DERIV_ipeval])
  then show ?case by simp
qed


lemma ipeval_imul: "ipeval (imul xs ys) x = ipeval xs x * ipeval ys x"
  by (induction xs) (simp_all add: ipeval_iadd ipeval_smult algebra_simps)

lemma ipeval2_map_imul: "ipeval2 (map (imul r) ys) x y = ipeval r x * ipeval2 ys x y"
  by (induction ys) (simp_all add: ipeval_imul algebra_simps)

lemma ipeval2_imul2: "ipeval2 (imul2 xs ys) x y = ipeval2 xs x y * ipeval2 ys x y"
  by (induction xs) (simp_all add: ipeval2_iadd2 ipeval2_map_imul algebra_simps)

subsection \<open>Running the check\<close>

lemma icheck_numeral:
  "icheck (numeral k) q =
     (if iub q < 0 then True
      else if e_var q \<le> p_var q
      then (if icheck (pred_numeral k) (child_p 1 q) then icheck (pred_numeral k) (child_p (- 1) q) else False)
      else (if icheck (pred_numeral k) (child_e 1 q) then icheck (pred_numeral k) (child_e (- 1) q) else False))"
  by (simp add: numeral_eq_Suc)

lemmas icheck_eval = icheck_numeral to_unit_def child_p_def child_e_def ishift_step_def
  ishift2_step_def iub_def e_var_def
section \<open>The density as a polynomial\<close>

text \<open>The three loops of \<open>rho_p_t\<close> add up the polynomial \<open>R_C\<close> (and \<open>R_C_v2\<close>).\<close>

lemma rho_poly_C: "rho_poly C p t = ipeval2 R_C p (t - 20) / 10 ^ 18"
proof -
  define dt where "dt = t - 20"
  show ?thesis
    unfolding rho_poly_def Let_def dt_def [symmetric]
    by (simp add: A_def B_def C_def R_C_def upt_0_12 upt_1_7 eval_nat_numeral algebra_simps)
qed

lemma rho_poly_C_v2: "rho_poly C_v2 p t = ipeval2 R_C_v2 p (t - 20) / 10 ^ 18"
proof -
  define dt where "dt = t - 20"
  show ?thesis
    unfolding rho_poly_def Let_def dt_def [symmetric]
    by (simp add: A_def B_def C_v2_def R_C_v2_def upt_0_12 upt_1_7 eval_nat_numeral algebra_simps)
qed

section \<open>Where the density decreases\<close>

text \<open>
  The derivative in the mass fraction is negative for \<open>0 \<le> p \<le> 1\<close> and every temperature
  from -10 to 50 degrees, with both tables of cross terms.
\<close>

lemma cert_dp_C: "icheck 12 (to_unit 0 30 (map ideriv R_C))"
  by (simp add: icheck_eval R_C_def)




lemma ipeval2_decreasing_fst:
  assumes cert: "icheck n (to_unit dmid dhalf (map ideriv q))" and "0 < dhalf"
    and d: "\<bar>d - of_int dmid\<bar> \<le> of_int dhalf"
    and ab: "0 \<le> a" "a < b" "b \<le> 1"
  shows "ipeval2 q b d < ipeval2 q a d"
proof (rule DERIV_neg_imp_decreasing [OF ab(2)])
  fix x :: real
  assume "a \<le> x" "x \<le> b"
  then have "0 \<le> x" "x \<le> 1" using ab by linarith+
  then have "ipeval2 (map ideriv q) x d < 0"
    using cert assms(2) d by (intro to_unit_sound [where n = n and dmid = dmid and dhalf = dhalf])
  then show "\<exists>y. ((\<lambda>x. ipeval2 q x d) has_real_derivative y) (at x) \<and> y < 0"
    using DERIV_ipeval2_fst [of q d x] by blast
qed


lemma rho_p_t_decreasing_p:
  assumes "0 \<le> p1" "p1 < p2" "p2 \<le> 1" "-10 \<le> t" "t \<le> 50"
  shows "rho_p_t p2 t < rho_p_t p1 t"
proof -
  have "\<bar>(t - 20) - of_int 0\<bar> \<le> of_int 30" using assms(4,5) by (simp add: abs_le_iff)
  then have "ipeval2 R_C p2 (t - 20) < ipeval2 R_C p1 (t - 20)"
    using cert_dp_C assms(1-3) by (intro ipeval2_decreasing_fst [where n = 12 and dmid = 0 and dhalf = 30]) simp_all
  then show ?thesis by (simp add: rho_p_t_def rho_poly_C divide_strict_right_mono)
qed







section \<open>The hydrometer record\<close>

text \<open>
  Claim C5, as stated: \<open>trueAbv = readingAbv + correction\<close> for every reading. It fails for
  a reading of 40.05 at 25 degrees: both fields have one decimal, the reading has two.
\<close>

theorem hydrometer_identity_counterexample:
  "trueAbv (correctHydrometerReading 40.05 25)
     \<noteq> 40.05 + correction (correctHydrometerReading 40.05 25)"
proof
  let ?r = "correctHydrometerReading 40.05 25"
  assume eq: "trueAbv ?r = 40.05 + correction ?r"
  have "decimals 1 (trueAbv ?r)" "decimals 1 (correction ?r)"
    by (simp_all add: correctHydrometerReading_def getHydrometerCorrection_def
        HydrometerCorrection.defs Let_def toFixed_decimals)
  then have "decimals 1 (trueAbv ?r - correction ?r)" by (rule decimals_diff)
  then have "decimals 1 (40.05 :: real)" using eq by simp
  then have "(of_int 801 / of_int 2 :: real) \<in> \<int>" by (simp add: decimals_def)
  then have "(2::int) dvd 801" by (rule Ints_fraction_dvd) simp
  then show False by simp
qed

text \<open>
  The point the bisection of \<open>getHydrometerCorrection\<close> returns is an odd multiple of
  \<open>100 / 2 ^ 30\<close>.
\<close>

lemma hyd_step_dyadic:
  assumes "low = 100 * of_int a / 2 ^ i" "high = 100 * (of_int a + 1) / 2 ^ i"
  shows "\<exists>a' b. hyd_step f rho target tempC k (low, high, y)
      = (100 * of_int a' / 2 ^ Suc i, 100 * (of_int a' + 1) / 2 ^ Suc i,
         100 * (2 * of_int b + 1) / 2 ^ Suc i)"
proof -
  have mid: "(low + high) / 2 = 100 * (2 * of_int a + 1) / 2 ^ Suc i"
    unfolding assms by (simp add: field_simps)
  have lo: "low = 100 * of_int (2 * a) / 2 ^ Suc i"
    unfolding assms by simp
  have hi: "high = 100 * (of_int (2 * a + 1) + 1) / 2 ^ Suc i"
    unfolding assms by (simp add: field_simps)
  have m1: "(low + high) / 2 = 100 * (of_int (2 * a) + 1) / 2 ^ Suc i"
    unfolding mid by simp
  have m2: "(low + high) / 2 = 100 * of_int (2 * a + 1) / 2 ^ Suc i"
    unfolding mid by simp
  show ?thesis
  proof (cases "rho (f ((low + high) / 2)) tempC > target")
    case True
    then have "hyd_step f rho target tempC k (low, high, y)
        = ((low + high) / 2, high, (low + high) / 2)"
      by (simp add: hyd_step_def Let_def)
    also have "\<dots> = (100 * of_int (2 * a + 1) / 2 ^ Suc i,
        100 * (of_int (2 * a + 1) + 1) / 2 ^ Suc i, 100 * (2 * of_int a + 1) / 2 ^ Suc i)"
      using m2 hi mid by simp
    finally show ?thesis by blast
  next
    case False
    then have "hyd_step f rho target tempC k (low, high, y)
        = (low, (low + high) / 2, (low + high) / 2)"
      by (simp add: hyd_step_def Let_def)
    also have "\<dots> = (100 * of_int (2 * a) / 2 ^ Suc i,
        100 * (of_int (2 * a) + 1) / 2 ^ Suc i, 100 * (2 * of_int a + 1) / 2 ^ Suc i)"
      using lo m1 mid by simp
    finally show ?thesis by blast
  qed
qed

lemma hyd_fold_dyadic:
  assumes "xs \<noteq> []"
  shows "\<exists>a' b. fold (hyd_step f rho target tempC) xs
        (100 * of_int a / 2 ^ i, 100 * (of_int a + 1) / 2 ^ i, y)
      = (100 * of_int a' / 2 ^ (i + length xs), 100 * (of_int a' + 1) / 2 ^ (i + length xs),
         100 * (2 * of_int b + 1) / 2 ^ (i + length xs))"
  using assms
proof (induction xs arbitrary: a i y)
  case Nil
  then show ?case by simp
next
  case (Cons k xs)
  obtain a1 b1 where s1: "hyd_step f rho target tempC k
        (100 * of_int a / 2 ^ i, 100 * (of_int a + 1) / 2 ^ i, y)
      = (100 * of_int a1 / 2 ^ Suc i, 100 * (of_int a1 + 1) / 2 ^ Suc i,
         100 * (2 * of_int b1 + 1) / 2 ^ Suc i)"
    using hyd_step_dyadic [OF refl refl, of f rho target tempC k a i y] by blast
  show ?case
  proof (cases "xs = []")
    case True
    then show ?thesis using s1 by auto
  next
    case False
    from Cons.IH [OF False, of a1 "Suc i" "100 * (2 * of_int b1 + 1) / 2 ^ Suc i"]
    obtain a' b where "fold (hyd_step f rho target tempC) xs
        (100 * of_int a1 / 2 ^ Suc i, 100 * (of_int a1 + 1) / 2 ^ Suc i,
         100 * (2 * of_int b1 + 1) / 2 ^ Suc i)
      = (100 * of_int a' / 2 ^ (Suc i + length xs), 100 * (of_int a' + 1) / 2 ^ (Suc i + length xs),
         100 * (2 * of_int b + 1) / 2 ^ (Suc i + length xs))"
      by blast
    then show ?thesis using s1 by auto
  qed
qed

lemma hyd_solve_dyadic:
  "\<exists>b. hyd_solve f rho target tempC = 100 * (2 * of_int b + 1) / 2 ^ 30"
proof -
  have "[0..<30] \<noteq> []" by simp
  from hyd_fold_dyadic [OF this, of f rho target tempC 0 0 50]
  obtain a' b where "fold (hyd_step f rho target tempC) [0..<30] (0, 100, 50)
      = (100 * of_int a' / 2 ^ 30, 100 * (of_int a' + 1) / 2 ^ 30, 100 * (2 * of_int b + 1) / 2 ^ 30)"
    by auto
  then show ?thesis by (auto simp: hyd_solve_def)
qed

text \<open>Ten times such a point plus one half is never an integer: rounding it has no tie.\<close>

lemma dyadic_no_tie:
  fixes x :: real
  assumes "x = 100 * (2 * of_int b + 1) / 2 ^ 30"
  shows "x * 10 + 1 / 2 \<notin> \<int>"
proof
  assume "x * 10 + 1 / 2 \<in> \<int>"
  then obtain n :: int where n: "x * 10 + 1 / 2 = of_int n" by (auto elim: Ints_cases)
  have "x * 10 + 1 / 2 = of_int (125 * (2 * b + 1) + 2 ^ 26) / 2 ^ 27"
    unfolding assms by simp
  then have "(of_int (125 * (2 * b + 1) + 2 ^ 26) :: real) = of_int (n * 2 ^ 27)"
    using n by (simp add: field_simps)
  then have eq: "125 * (2 * b + 1) + 2 ^ 26 = n * 2 ^ 27" by (simp only: of_int_eq_iff)
  then have e: "67108989 + 250 * b = n * 134217728" by simp
  have "odd (67108989 + 250 * b)" by simp
  moreover have "even (n * 134217728)" by simp
  ultimately show False unfolding e by simp
qed

lemma toFixed_shift:
  assumes tie: "x * 10 + 1 / 2 \<notin> \<int>" and x: "0 \<le> x" and r: "decimals 1 r"
  shows "toFixed (x - r) 1 = toFixed x 1 - r"
proof -
  obtain k :: int where k: "r * 10 = of_int k"
    using r by (auto simp: decimals_def elim: Ints_cases)
  define n where "n = \<lfloor>x * 10 + 1 / 2\<rfloor>"
  have n: "of_int n < x * 10 + 1 / 2" "x * 10 + 1 / 2 < of_int n + 1"
  proof -
    have "of_int n \<le> x * 10 + 1 / 2" unfolding n_def by (rule of_int_floor_le)
    moreover have "of_int n \<noteq> x * 10 + 1 / 2" using tie by (metis Ints_of_int)
    ultimately show "of_int n < x * 10 + 1 / 2" by simp
    show "x * 10 + 1 / 2 < of_int n + 1" unfolding n_def by linarith
  qed
  have fx: "toFixed x 1 = of_int n / 10" using x by (simp add: toFixed_def n_def)
  have rk: "r = of_int k / 10" using k by simp
  show ?thesis
  proof (cases "x - r < 0")
    case False
    have "\<lfloor>(x - r) * 10 + 1 / 2\<rfloor> = n - k"
      using n k by (intro floor_unique) (simp_all add: algebra_simps)
    then have "toFixed (x - r) 1 = of_int (n - k) / 10"
      using False by (simp add: toFixed_def)
    then show ?thesis unfolding fx by (simp add: rk diff_divide_distrib)
  next
    case True
    have "\<lfloor>(- (x - r)) * 10 + 1 / 2\<rfloor> = k - n"
      using n k by (intro floor_unique) (simp_all add: algebra_simps)
    then have "toFixed (x - r) 1 = - (of_int (k - n) / 10)"
      using True by (simp add: toFixed_def)
    then show ?thesis unfolding fx by (simp add: rk diff_divide_distrib)
  qed
qed

text \<open>
  Claim C5, amended: \<open>trueAbv\<close> and \<open>readingAbv + correction\<close> differ by at most 0.1 (each of
  the two fields is rounded to one decimal on its own), and they are equal when the reading
  has at most one decimal; in both polynomial modules.
\<close>

theorem hydrometer_identity_rounded:
  "\<bar>trueAbv (correctHydrometerReading readingAbv tempC)
      - (readingAbv + correction (correctHydrometerReading readingAbv tempC))\<bar> \<le> 1 / 10 \<and>
   \<bar>trueAbv (correctHydrometerReading_v2 readingAbv tempC)
      - (readingAbv + correction (correctHydrometerReading_v2 readingAbv tempC))\<bar> \<le> 1 / 10 \<and>
   (decimals 1 readingAbv \<longrightarrow>
      trueAbv (correctHydrometerReading readingAbv tempC)
        = readingAbv + correction (correctHydrometerReading readingAbv tempC) \<and>
      trueAbv (correctHydrometerReading_v2 readingAbv tempC)
        = readingAbv + correction (correctHydrometerReading_v2 readingAbv tempC))"
proof -
  have exact: "toFixed (hyd_solve f rho target tempC) 1
      = readingAbv + toFixed (hyd_solve f rho target tempC - readingAbv) 1"
    if "decimals 1 readingAbv" for f rho target
  proof -
    obtain b :: int where b: "hyd_solve f rho target tempC = 100 * (2 * of_int b + 1) / 2 ^ 30"
      using hyd_solve_dyadic by blast
    have "hyd_solve f rho target tempC * 10 + 1 / 2 \<notin> \<int>" using b by (rule dyadic_no_tie)
    moreover have "0 \<le> hyd_solve f rho target tempC"
      using hyd_solve_range [of f rho target tempC] by simp
    ultimately have "toFixed (hyd_solve f rho target tempC - readingAbv) 1
        = toFixed (hyd_solve f rho target tempC) 1 - readingAbv"
      using that by (rule toFixed_shift)
    then show ?thesis by simp
  qed
  show ?thesis
    using toFixed_pair_err [of _ 1 readingAbv] exact
    by (simp add: correctHydrometerReading_def getHydrometerCorrection_def
        correctHydrometerReading_v2_def getHydrometerCorrection_v2_def
        HydrometerCorrection.defs Let_def)
qed

theorem hydrometer_identity_rounded_witness:
  "decimals 1 (401 / 10) \<and>
   \<bar>trueAbv (correctHydrometerReading (401 / 10) 25)
      - (401 / 10 + correction (correctHydrometerReading (401 / 10) 25))\<bar> \<le> 1 / 10 \<and>
   \<bar>trueAbv (correctHydrometerReading_v2 (401 / 10) 25)
      - (401 / 10 + correction (correctHydrometerReading_v2 (401 / 10) 25))\<bar> \<le> 1 / 10 \<and>
   trueAbv (correctHydrometerReading (401 / 10) 25)
        = 401 / 10 + correction (correctHydrometerReading (401 / 10) 25) \<and>
   trueAbv (correctHydrometerReading_v2 (401 / 10) 25)
        = 401 / 10 + correction (correctHydrometerReading_v2 (401 / 10) 25)"
proof -
  have d: "decimals 1 (401 / 10)" by (simp add: decimals_def)
  show ?thesis using d hydrometer_identity_rounded [of "401 / 10" 25] by simp
qed

text \<open>
  Claim C10. For every reading and every temperature the \<open>trueAbv\<close> returned lies in
  \<open>[0, 100]\<close>, in both polynomial modules: the bisection never leaves its bracket, whatever
  the comparisons say, and rounding to one decimal keeps the bounds.
\<close>

theorem trueAbv_in_range:
  "0 \<le> trueAbv (correctHydrometerReading readingAbv tempC) \<and>
   trueAbv (correctHydrometerReading readingAbv tempC) \<le> 100 \<and>
   0 \<le> trueAbv (correctHydrometerReading_v2 readingAbv tempC) \<and>
   trueAbv (correctHydrometerReading_v2 readingAbv tempC) \<le> 100"
proof -
  have r: "0 \<le> toFixed (hyd_solve f rho target tempC) 1 \<and>
      toFixed (hyd_solve f rho target tempC) 1 \<le> 100" for f rho target
    using hyd_solve_range [of f rho target tempC]
      toFixed_nonneg [of "hyd_solve f rho target tempC" 1]
      toFixed_le_int [of "hyd_solve f rho target tempC" 100 1]
    by simp
  show ?thesis
    using r by (simp add: correctHydrometerReading_def getHydrometerCorrection_def
        correctHydrometerReading_v2_def getHydrometerCorrection_v2_def
        HydrometerCorrection.defs Let_def)
qed


section \<open>Round trip of the fraction converter\<close>

text \<open>
  The volume fraction \<open>p * rho_p_t(p, 20) / RHO_ETH_20\<close> increases with \<open>p\<close> on \<open>[0, 1]\<close>, with
  a slope below 2.
\<close>

lemma rho_p_t_20_poly: "rho_p_t p 20 = ipeval (hd R_C) p / 10 ^ 18"
  by (simp add: rho_p_t_def rho_poly_C R_C_def)

lemma vol_frac_poly: "vol_frac p = ipeval V_20 p / (78924 * 10 ^ 16)"
  by (simp add: vol_frac_def rho_p_t_20_poly V_20_def RHO_ETH_20_def)

lemma cert_vol_frac_up: "icheck 6 (to_unit 0 1 (map ideriv [iadd V_20 [0, - (2 * 78924 * 10 ^ 16)]]))"
  by (simp add: icheck_eval V_20_def R_C_def)

lemma cert_vol_frac_lo: "icheck 6 (to_unit 0 1 (map ideriv [map ((*) (- 1)) V_20]))"
  by (simp add: icheck_eval V_20_def R_C_def)

lemma vol_frac_increasing:
  assumes "0 \<le> a" "a < b" "b \<le> 1"
  shows "vol_frac a < vol_frac b"
proof -
  have "ipeval2 [map ((*) (- 1)) V_20] b 0 < ipeval2 [map ((*) (- 1)) V_20] a 0"
    using cert_vol_frac_lo assms
    by (intro ipeval2_decreasing_fst [where n = 6 and dmid = 0 and dhalf = 1]) simp_all
  then have "ipeval V_20 a < ipeval V_20 b" by (simp add: ipeval_smult)
  then show ?thesis by (simp add: vol_frac_poly divide_strict_right_mono)
qed

lemma vol_frac_lipschitz:
  assumes "0 \<le> a" "a \<le> b" "b \<le> 1"
  shows "vol_frac b - vol_frac a \<le> 2 * (b - a)"
proof (cases "a = b")
  case True
  then show ?thesis by simp
next
  case False
  then have ab: "a < b" using assms(2) by simp
  let ?K = "78924 * 10 ^ 16 :: real"
  have "ipeval2 [iadd V_20 [0, - (2 * 78924 * 10 ^ 16)]] b 0
      < ipeval2 [iadd V_20 [0, - (2 * 78924 * 10 ^ 16)]] a 0"
    using cert_vol_frac_up assms(1,3) ab
    by (intro ipeval2_decreasing_fst [where n = 6 and dmid = 0 and dhalf = 1]) simp_all
  then have "ipeval V_20 b - ipeval V_20 a < 2 * ?K * (b - a)"
    by (simp add: ipeval_iadd algebra_simps)
  then have "(ipeval V_20 b - ipeval V_20 a) / ?K < (2 * ?K * (b - a)) / ?K"
    by (rule divide_strict_right_mono) simp
  then show ?thesis by (simp add: vol_frac_poly diff_divide_distrib)
qed

lemma vol_frac_0: "vol_frac 0 = 0"
  by (simp add: vol_frac_def)

lemma vol_frac_1: "vol_frac 1 = 7892391233 / 7892400000"
  by (simp add: vol_frac_poly V_20_def R_C_def)

lemma massFractionToAbv_vol_frac: "massFractionToAbv p = vol_frac p * 100"
  by (simp add: massFractionToAbv_def vol_frac_def)

lemma abv_step_inv:
  assumes "abv_inv T i s"
  shows "abv_inv T (Suc i) (abv_step rho_p_t T k s)"
proof -
  obtain low high p where s: "s = (low, high, p)" by (cases s)
  have h: "0 \<le> low" "high \<le> 1" "high - low = 1 / 2 ^ i" "vol_frac low < T"
    "high = 1 \<or> T \<le> vol_frac high"
    using assms by (simp_all add: abv_inv_def s)
  have pos: "(0::real) < 1 / 2 ^ i" by simp
  have half: "high - (low + high) / 2 = 1 / 2 ^ Suc i" "(low + high) / 2 - low = 1 / 2 ^ Suc i"
    using h(3) by (simp_all add: field_simps)
  have "0 < high - low" using h(3) pos by simp
  then have mid: "0 \<le> (low + high) / 2" "(low + high) / 2 \<le> 1"
    using h(1,2) by simp_all
  show ?thesis
  proof (cases "vol_frac ((low + high) / 2) < T")
    case True
    then have "abv_step rho_p_t T k s = ((low + high) / 2, high, (low + high) / 2)"
      by (simp add: s abv_step_def Let_def vol_frac_def)
    then show ?thesis using h half mid True by (simp add: abv_inv_def)
  next
    case False
    then have "abv_step rho_p_t T k s = (low, (low + high) / 2, (low + high) / 2)"
      by (simp add: s abv_step_def Let_def vol_frac_def)
    then show ?thesis using h half mid False by (simp add: abv_inv_def)
  qed
qed

lemma abv_fold_inv:
  "abv_inv T i s \<Longrightarrow> abv_inv T (i + length xs) (fold (abv_step rho_p_t T) xs s)"
proof (induction xs arbitrary: i s)
  case Nil
  then show ?case by simp
next
  case (Cons k xs)
  have "abv_inv T (Suc i) (abv_step rho_p_t T k s)" using Cons.prems by (rule abv_step_inv)
  then have "abv_inv T (Suc i + length xs) (fold (abv_step rho_p_t T) xs (abv_step rho_p_t T k s))"
    by (rule Cons.IH)
  then show ?case by simp
qed

lemma abv_final:
  assumes "0 < T"
  obtains low high p where
    "fold (abv_step rho_p_t T) [0..<40] (0, 1, 0.5) = (low, high, p)"
    "0 \<le> low" "high \<le> 1" "high - low = 1 / 2 ^ 40" "p = low \<or> p = high"
    "vol_frac low < T" "high = 1 \<or> T \<le> vol_frac high" "0 < p" "p < 1"
proof -
  obtain low high p where s: "fold (abv_step rho_p_t T) [0..<40] (0, 1, 0.5) = (low, high, p)"
    by (cases "fold (abv_step rho_p_t T) [0..<40] (0, 1, 0.5)")
  have "abv_inv T 0 (0, 1, 0.5)" using assms by (simp add: abv_inv_def vol_frac_0)
  then have "abv_inv T (0 + length [0..<40]) (fold (abv_step rho_p_t T) [0..<40] (0, 1, 0.5))"
    by (rule abv_fold_inv)
  then have "abv_inv T 40 (low, high, p)" unfolding s by simp
  then have 1: "0 \<le> low" "high \<le> 1" "high - low = 1 / 2 ^ 40" "p = low \<or> p = high"
    "vol_frac low < T" "high = 1 \<or> T \<le> vol_frac high"
    by (simp_all add: abv_inv_def)
  have "bracket_inv 0 1 (fold (abv_step rho_p_t T) [0..<40] (0, 1, 0.5))"
    by (rule abv_fold_bracket) (simp add: bracket_inv_def)
  then have "bracket_inv 0 1 (low, high, p)" unfolding s .
  then have 2: "0 < p" "p < 1" by (simp_all add: bracket_inv_def)
  show ?thesis using that s 1 2 by blast
qed

lemma abvToMassFraction_fold:
  assumes "0 < abv" "abv < 100"
  shows "abvToMassFraction abv = snd (snd (fold (abv_step rho_p_t (abv / 100)) [0..<40] (0, 1, 0.5)))"
  using assms by (simp add: abvToMassFraction_def abv_solve_def Let_def split: prod.splits)

lemma round_trip_interior:
  assumes "0 < abv" "abv < 100"
  shows "\<bar>massFractionToAbv (abvToMassFraction abv) - abv\<bar>
      \<le> (if abv / 100 \<le> vol_frac 1 then 200 / 2 ^ 40 else 100 * (1 - vol_frac 1) + 200 / 2 ^ 40)"
proof -
  define T where "T = abv / 100"
  have T: "0 < T" "T < 1" using assms by (simp_all add: T_def)
  obtain low high p where s: "fold (abv_step rho_p_t T) [0..<40] (0, 1, 0.5) = (low, high, p)"
    and h: "0 \<le> low" "high \<le> 1" "high - low = 1 / 2 ^ 40" "p = low \<or> p = high"
      "vol_frac low < T" "high = 1 \<or> T \<le> vol_frac high" "0 < p" "p < 1"
    using abv_final [OF T(1)] by metis
  have p: "abvToMassFraction abv = p"
    using assms s by (simp add: abvToMassFraction_fold T_def [symmetric])
  have lh: "low \<le> high" using h(3) by simp
  have lip: "vol_frac high - vol_frac low \<le> 2 / 2 ^ 40"
    using vol_frac_lipschitz [OF h(1) lh h(2)] h(3) by simp
  have mono: "vol_frac low \<le> vol_frac high"
    using vol_frac_increasing [of low high] h(1,2) lh by (cases "low = high") auto
  have vp: "vol_frac low \<le> vol_frac p" "vol_frac p \<le> vol_frac high"
    using h(4) mono by auto
  have goal: "\<bar>vol_frac p - T\<bar> \<le> (if T \<le> vol_frac 1 then 2 / 2 ^ 40 else (1 - vol_frac 1) + 2 / 2 ^ 40)"
  proof (cases "T \<le> vol_frac high")
    case True
    then have "\<bar>vol_frac p - T\<bar> \<le> 2 / 2 ^ 40" using h(5) vp lip by linarith
    moreover have "(0::real) \<le> 1 - vol_frac 1" by (simp add: vol_frac_1)
    ultimately show ?thesis by auto
  next
    case False
    then have high: "high = 1" using h(6) by blast
    then have "p = low" using h(4,8) by auto
    have "\<not> T \<le> vol_frac 1" using False high by simp
    moreover have "vol_frac 1 - vol_frac low \<le> 2 / 2 ^ 40" using lip high by simp
    then have "\<bar>vol_frac low - T\<bar> \<le> (1 - vol_frac 1) + 2 / 2 ^ 40"
      using h(5) T(2) by linarith
    then have "\<bar>vol_frac p - T\<bar> \<le> (1 - vol_frac 1) + 2 / 2 ^ 40"
      using \<open>p = low\<close> by simp
    ultimately show ?thesis by simp
  qed
  have "\<bar>massFractionToAbv p - abv\<bar> = 100 * \<bar>vol_frac p - T\<bar>"
    by (simp add: massFractionToAbv_vol_frac T_def abs_if)
  also have "\<dots> \<le> 100 * (if T \<le> vol_frac 1 then 2 / 2 ^ 40 else (1 - vol_frac 1) + 2 / 2 ^ 40)"
    using goal by (intro mult_left_mono) simp_all
  finally show ?thesis by (simp add: p T_def split: if_splits)
qed

text \<open>
  Claim C3, as stated: for every \<open>abv\<close> in \<open>[0, 100]\<close> the round trip returns \<open>abv\<close> up to
  a tolerance of the order of \<open>100 * 2 ^ -40\<close> (about \<open>10 ^ -10\<close>). It fails at \<open>abv = 100\<close>:
  \<open>abvToMassFraction\<close> returns 1 and \<open>massFractionToAbv(1)\<close> is
  \<open>100 * 789.2391233 / 789.24 = 99.99988...\<close>, off by more than \<open>10 ^ -4\<close>.
\<close>

theorem round_trip_counterexample:
  "1 / 10 ^ 4 < \<bar>massFractionToAbv (abvToMassFraction 100) - 100\<bar>"
  by (simp add: abvToMassFraction_def abv_solve_def massFractionToAbv_vol_frac vol_frac_1)

text \<open>
  Claim C3, amended: for every \<open>abv\<close> in \<open>[0, 99.9998]\<close> the round trip returns \<open>abv\<close> within
  \<open>200 * 2 ^ -40\<close>; on the whole of \<open>[0, 100]\<close> it returns \<open>abv\<close> within \<open>1.2 * 10 ^ -4\<close>
  (the volume fraction of pure ethanol is \<open>789.2391233 / 789.24\<close>, not 1).
\<close>

theorem round_trip:
  "(0 \<le> abv \<and> abv \<le> 99.9998 \<longrightarrow>
      \<bar>massFractionToAbv (abvToMassFraction abv) - abv\<bar> \<le> 200 / 2 ^ 40) \<and>
   (0 \<le> abv \<and> abv \<le> 100 \<longrightarrow>
      \<bar>massFractionToAbv (abvToMassFraction abv) - abv\<bar> \<le> 12 / 10 ^ 5)"
proof (intro conjI impI)
  assume h: "0 \<le> abv \<and> abv \<le> 99.9998"
  show "\<bar>massFractionToAbv (abvToMassFraction abv) - abv\<bar> \<le> 200 / 2 ^ 40"
  proof (cases "abv = 0")
    case True
    then show ?thesis
      by (simp add: abvToMassFraction_def abv_solve_def massFractionToAbv_vol_frac vol_frac_0)
  next
    case False
    then have "0 < abv" "abv < 100" using h by simp_all
    moreover have "abv / 100 \<le> vol_frac 1" using h by (simp add: vol_frac_1)
    ultimately show ?thesis using round_trip_interior [of abv] by simp
  qed
next
  assume h: "0 \<le> abv \<and> abv \<le> 100"
  consider "abv = 0" | "abv = 100" | "0 < abv" "abv < 100" using h by fastforce
  then show "\<bar>massFractionToAbv (abvToMassFraction abv) - abv\<bar> \<le> 12 / 10 ^ 5"
  proof cases
    case 1
    then show ?thesis
      by (simp add: abvToMassFraction_def abv_solve_def massFractionToAbv_vol_frac vol_frac_0)
  next
    case 2
    then show ?thesis
      by (simp add: abvToMassFraction_def abv_solve_def massFractionToAbv_vol_frac vol_frac_1)
  next
    case 3
    have "(200::real) / 2 ^ 40 \<le> 12 / 10 ^ 5" by simp
    moreover have "100 * (1 - vol_frac 1) + 200 / 2 ^ 40 \<le> (12::real) / 10 ^ 5"
      by (simp add: vol_frac_1)
    ultimately show ?thesis using round_trip_interior [OF 3] by (auto split: if_splits)
  qed
qed

theorem round_trip_witness:
  "((0::real) \<le> 40 \<and> (40::real) \<le> 99.9998) \<and> ((40::real) \<le> 100) \<and>
   \<bar>massFractionToAbv (abvToMassFraction 40) - 40\<bar> \<le> 200 / 2 ^ 40 \<and>
   \<bar>massFractionToAbv (abvToMassFraction 40) - 40\<bar> \<le> 12 / 10 ^ 5"
  using round_trip [of 40] by simp

section \<open>The hydrometer correction at the reference temperature\<close>

text \<open>The result of \<open>abvToMassFraction\<close> does not decrease when \<open>abv\<close> grows.\<close>

lemma abv_step_diverged:
  assumes "Ta \<le> Tb" "bracket_inv lo hi sa" "bracket_inv lo hi sb" "diverged sa sb"
  shows "diverged (abv_step rho Ta k sa) (abv_step rho Tb k sb)"
proof -
  obtain la ha pa where sa: "sa = (la, ha, pa)" by (cases sa)
  obtain lb hb pb where sb: "sb = (lb, hb, pb)" by (cases sb)
  have a: "la < ha" and b: "lb < hb" using assms(2,3) by (simp_all add: bracket_inv_def sa sb)
  show ?thesis
  proof (cases "sa = sb")
    case True
    then show ?thesis using assms(1) a
      by (auto simp: diverged_def sa sb abv_step_def Let_def)
  next
    case False
    then have "ha \<le> lb" using assms(4) by (auto simp: diverged_def sa sb)
    then show ?thesis using a b
      by (auto simp: diverged_def sa sb abv_step_def Let_def)
  qed
qed

lemma abv_fold_diverged:
  assumes "Ta \<le> Tb"
  shows "bracket_inv lo hi sa \<Longrightarrow> bracket_inv lo hi sb \<Longrightarrow> diverged sa sb \<Longrightarrow>
    diverged (fold (abv_step rho Ta) xs sa) (fold (abv_step rho Tb) xs sb)"
proof (induction xs arbitrary: sa sb)
  case Nil
  then show ?case by simp
next
  case (Cons k xs)
  have "diverged (abv_step rho Ta k sa) (abv_step rho Tb k sb)"
    using assms Cons.prems by (rule abv_step_diverged)
  moreover have "bracket_inv lo hi (abv_step rho Ta k sa)" "bracket_inv lo hi (abv_step rho Tb k sb)"
    using Cons.prems(1,2) by (simp_all add: abv_step_bracket)
  ultimately show ?case using Cons.IH by simp
qed

lemma abv_solve_mono:
  assumes "a \<le> b"
  shows "abv_solve rho a \<le> abv_solve rho b"
proof -
  consider "a \<le> 0" | "100 \<le> b" | "0 < a" "b < 100" by linarith
  then show ?thesis
  proof cases
    case 1
    then show ?thesis using abv_solve_range [of rho b] by (simp add: abv_solve_def)
  next
    case 2
    then show ?thesis using abv_solve_range [of rho a] by (simp add: abv_solve_def)
  next
    case 3
    let ?sa = "fold (abv_step rho (a / 100)) [0..<40] (0, 1, 0.5)"
    let ?sb = "fold (abv_step rho (b / 100)) [0..<40] (0, 1, 0.5)"
    have i: "bracket_inv 0 1 (0, 1, 0.5)" by (simp add: bracket_inv_def)
    have "diverged ?sa ?sb"
      using assms i by (intro abv_fold_diverged [where lo = 0 and hi = 1]) (simp_all add: diverged_def)
    moreover have "bracket_inv 0 1 ?sa" "bracket_inv 0 1 ?sb"
      using i by (simp_all add: abv_fold_bracket)
    ultimately have "snd (snd ?sa) \<le> snd (snd ?sb)"
      by (cases ?sa; cases ?sb) (auto simp: diverged_def bracket_inv_def)
    moreover have "abv_solve rho a = snd (snd ?sa)" "abv_solve rho b = snd (snd ?sb)"
      using 3 assms by (simp_all add: abv_solve_def Let_def split: prod.splits)
    ultimately show ?thesis by simp
  qed
qed

lemma abv_solve_lt_1: "abv < 100 \<Longrightarrow> abv_solve rho abv < 1"
proof -
  assume "abv < 100"
  have "bracket_inv 0 1 (fold (abv_step rho (abv / 100)) [0..<40] (0, 1, 0.5))"
    by (rule abv_fold_bracket) (simp add: bracket_inv_def)
  then show ?thesis using \<open>abv < 100\<close>
    by (auto simp: abv_solve_def bracket_inv_def Let_def split: prod.splits)
qed

lemma abvToMassFraction_range: "0 \<le> abvToMassFraction x" "abvToMassFraction x \<le> 1"
  using abv_solve_range [of rho_p_t x] by (simp_all add: abvToMassFraction_def)

lemma rho_20_less_iff:
  assumes "0 \<le> p" "p \<le> 1" "0 \<le> q" "q \<le> 1"
  shows "rho_p_t p 20 > rho_p_t q 20 \<longleftrightarrow> p < q"
proof
  assume g: "rho_p_t p 20 > rho_p_t q 20"
  show "p < q"
  proof (rule ccontr)
    assume "\<not> p < q"
    then have "q \<le> p" by simp
    then have "rho_p_t p 20 \<le> rho_p_t q 20"
      using rho_p_t_decreasing_p [of q p 20] assms by (cases "q = p") auto
    with g show False by simp
  qed
next
  assume "p < q"
  then show "rho_p_t p 20 > rho_p_t q 20"
    using rho_p_t_decreasing_p [of p q 20] assms by simp
qed

text \<open>
  Two targets on which the solver returns the same mass fraction are close: within 0.0002
  percent by volume.
\<close>

lemma abvToMassFraction_eq_close:
  assumes "0 < m" "m < x" "x \<le> 100" "abvToMassFraction x \<le> abvToMassFraction m"
  shows "x - m < 2 / 10 ^ 4"
proof -
  have mono: "abvToMassFraction m \<le> abvToMassFraction x"
    using assms(2) by (simp add: abvToMassFraction_def abv_solve_mono)
  have m100: "m < 100" using assms by simp
  have lt1: "abvToMassFraction m < 1"
    using m100 by (simp add: abvToMassFraction_def abv_solve_lt_1)
  have x100: "x < 100"
  proof (rule ccontr)
    assume "\<not> x < 100"
    then have "abvToMassFraction x = 1" by (simp add: abvToMassFraction_def abv_solve_def)
    with assms(4) lt1 show False by simp
  qed
  have x0: "0 < x" using assms by simp
  define Tm where "Tm = m / 100"
  define Tx where "Tx = x / 100"
  have T: "0 < Tm" "0 < Tx" "Tx < 1" using assms(1) x0 x100 by (simp_all add: Tm_def Tx_def)
  obtain lm hm pm where sm: "fold (abv_step rho_p_t Tm) [0..<40] (0, 1, 0.5) = (lm, hm, pm)"
    and hm: "0 \<le> lm" "hm \<le> 1" "hm - lm = 1 / 2 ^ 40" "pm = lm \<or> pm = hm"
      "vol_frac lm < Tm" "hm = 1 \<or> Tm \<le> vol_frac hm" "0 < pm" "pm < 1"
    using abv_final [OF T(1)] by metis
  obtain lx hx px where sx: "fold (abv_step rho_p_t Tx) [0..<40] (0, 1, 0.5) = (lx, hx, px)"
    and hx: "0 \<le> lx" "hx \<le> 1" "hx - lx = 1 / 2 ^ 40" "px = lx \<or> px = hx"
      "vol_frac lx < Tx" "hx = 1 \<or> Tx \<le> vol_frac hx" "0 < px" "px < 1"
    using abv_final [OF T(2)] by metis
  have pm: "abvToMassFraction m = pm"
    using assms(1) m100 sm by (simp add: abvToMassFraction_fold Tm_def [symmetric])
  have px: "abvToMassFraction x = px"
    using x0 x100 sx by (simp add: abvToMassFraction_fold Tx_def [symmetric])
  have eq: "pm = px" using mono assms(4) pm px by simp
  define w :: real where "w = 1 / 2 ^ 40"
  have w: "0 < w" "hm - lm = w" "hx - lx = w" using hm(3) hx(3) by (simp_all add: w_def)
  have near: "lm \<le> hx" "hx - lm \<le> 2 * w"
    using hm(4) hx(4) eq w by auto
  have lip: "vol_frac hx - vol_frac lm \<le> 4 * w"
    using vol_frac_lipschitz [OF hm(1) near(1) hx(2)] near(2) by argo
  have "Tx - Tm < (1 - vol_frac 1) + 4 * w"
  proof (cases "Tx \<le> vol_frac hx")
    case True
    have "(0::real) \<le> 1 - vol_frac 1" by (simp add: vol_frac_1)
    then show ?thesis using True hm(5) lip w(1) by linarith
  next
    case False
    then have "hx = 1" using hx(6) by blast
    then have "vol_frac 1 - vol_frac lm \<le> 4 * w" using lip by simp
    then show ?thesis using hm(5) T(3) by linarith
  qed
  then have "x - m < 100 * ((1 - vol_frac 1) + 4 * w)"
    by (simp add: Tm_def Tx_def)
  also have "\<dots> < 2 / 10 ^ 4" by (simp add: vol_frac_1 w_def)
  finally show ?thesis .
qed

lemma hyd_step_inv:
  assumes "0 \<le> x" "x \<le> 100" "hyd_inv x i s"
  shows "hyd_inv x (Suc i)
    (hyd_step abvToMassFraction rho_p_t (rho_p_t (abvToMassFraction x) 20) 20 k s)"
proof -
  obtain low high y where s: "s = (low, high, y)" by (cases s)
  have h: "0 \<le> low" "low \<le> x" "x - 2 / 10 ^ 4 < high" "high \<le> 100" "low < high"
    "high - low = 100 / 2 ^ i"
    using assms(3) by (simp_all add: hyd_inv_def s)
  define mid where "mid = (low + high) / 2"
  have mid: "0 < mid" "mid < 100" "low < mid" "mid < high"
    using h(1,4,5) by (simp_all add: mid_def)
  have half: "high - mid = 100 / 2 ^ Suc i" "mid - low = 100 / 2 ^ Suc i"
    using h(6) by (simp_all add: mid_def field_simps)
  have iff: "rho_p_t (abvToMassFraction mid) 20 > rho_p_t (abvToMassFraction x) 20
      \<longleftrightarrow> abvToMassFraction mid < abvToMassFraction x"
    by (rule rho_20_less_iff) (rule abvToMassFraction_range)+
  show ?thesis
  proof (cases "abvToMassFraction mid < abvToMassFraction x")
    case True
    have "mid \<le> x"
    proof (rule ccontr)
      assume "\<not> mid \<le> x"
      then have "abvToMassFraction x \<le> abvToMassFraction mid"
        by (simp add: abvToMassFraction_def abv_solve_mono)
      with True show False by simp
    qed
    moreover have "hyd_step abvToMassFraction rho_p_t (rho_p_t (abvToMassFraction x) 20) 20 k s
        = (mid, high, mid)"
      using True iff by (simp add: hyd_step_def s Let_def mid_def)
    ultimately show ?thesis using h mid half by (simp add: hyd_inv_def)
  next
    case False
    have "x - 2 / 10 ^ 4 < mid"
    proof (cases "mid < x")
      case True
      have "x - mid < 2 / 10 ^ 4"
        using mid(1) True assms(2) False by (intro abvToMassFraction_eq_close) simp_all
      then show ?thesis by simp
    next
      case False
      then show ?thesis by simp
    qed
    moreover have "hyd_step abvToMassFraction rho_p_t (rho_p_t (abvToMassFraction x) 20) 20 k s
        = (low, mid, mid)"
      using False iff by (simp add: hyd_step_def s Let_def mid_def)
    ultimately show ?thesis using h mid half by (simp add: hyd_inv_def)
  qed
qed

lemma hyd_fold_inv:
  assumes "0 \<le> x" "x \<le> 100"
  shows "hyd_inv x i s \<Longrightarrow> hyd_inv x (i + length xs)
    (fold (hyd_step abvToMassFraction rho_p_t (rho_p_t (abvToMassFraction x) 20) 20) xs s)"
proof (induction xs arbitrary: i s)
  case Nil
  then show ?case by simp
next
  case (Cons k xs)
  have "hyd_inv x (Suc i)
      (hyd_step abvToMassFraction rho_p_t (rho_p_t (abvToMassFraction x) 20) 20 k s)"
    using assms Cons.prems by (rule hyd_step_inv)
  then have "hyd_inv x (Suc i + length xs)
      (fold (hyd_step abvToMassFraction rho_p_t (rho_p_t (abvToMassFraction x) 20) 20) xs
        (hyd_step abvToMassFraction rho_p_t (rho_p_t (abvToMassFraction x) 20) 20 k s))"
    by (rule Cons.IH)
  then show ?case by simp
qed

lemma hyd_solve_20_close:
  assumes "0 \<le> x" "x \<le> 100"
  shows "\<bar>hyd_solve abvToMassFraction rho_p_t (rho_p_t (abvToMassFraction x) 20) 20 - x\<bar> < 1 / 20"
proof -
  let ?step = "hyd_step abvToMassFraction rho_p_t (rho_p_t (abvToMassFraction x) 20) 20"
  obtain low high y where s: "fold ?step [0..<30] (0, 100, 50) = (low, high, y)"
    by (cases "fold ?step [0..<30] (0, 100, 50)")
  have "hyd_inv x 0 (0, 100, 50)" using assms by (simp add: hyd_inv_def)
  then have "hyd_inv x (0 + length [0..<30]) (fold ?step [0..<30] (0, 100, 50))"
    using assms hyd_fold_inv by blast
  then have "hyd_inv x 30 (low, high, y)" unfolding s by simp
  then have h: "low \<le> x" "x - 2 / 10 ^ 4 < high" "high - low = 100 / 2 ^ 30" "y = low \<or> y = high"
    by (simp_all add: hyd_inv_def)
  define w :: real where "w = 100 / 2 ^ 30"
  have w: "high - low = w" "0 < w" "w < 1 / 10 ^ 4" using h(3) by (simp_all add: w_def)
  have e: "x - 1 / 5000 < high" using h(2) by simp
  have "w < 1 / 10000" using w(3) by simp
  then have "\<bar>low - x\<bar> < 1 / 20" "\<bar>high - x\<bar> < 1 / 20" using h(1) e w(1,2) by argo+
  then have "\<bar>y - x\<bar> < 1 / 20" using h(4) by auto
  moreover have "hyd_solve abvToMassFraction rho_p_t (rho_p_t (abvToMassFraction x) 20) 20 = y"
    unfolding hyd_solve_def s by simp
  ultimately show ?thesis by simp
qed

lemma toFixed_small: "\<bar>y\<bar> < 1 / 20 \<Longrightarrow> toFixed y 1 = 0"
proof -
  assume a: "\<bar>y\<bar> < 1 / 20"
  show ?thesis
  proof (cases "y < 0")
    case True
    then have "\<lfloor>(- y) * 10 + 1 / 2\<rfloor> = 0" using a by (intro floor_unique) auto
    then show ?thesis using True by (simp add: toFixed_def)
  next
    case False
    then have "\<lfloor>y * 10 + 1 / 2\<rfloor> = 0" using a by (intro floor_unique) auto
    then show ?thesis using False by (simp add: toFixed_def)
  qed
qed

lemma correction_20: 
  assumes "0 \<le> x" "x \<le> 100"
  shows "correction (correctHydrometerReading x 20) = 0"
  using toFixed_small [OF hyd_solve_20_close [OF assms]]
  by (simp add: correctHydrometerReading_def getHydrometerCorrection_def
      HydrometerCorrection.defs Let_def)

text \<open>At 20 degrees the second polynomial module computes what the first computes.\<close>

lemma rho_p_t_v2_20: "rho_p_t_v2 p 20 = rho_p_t p 20"
  by (simp add: rho_p_t_v2_def rho_p_t_def rho_poly_C rho_poly_C_v2 R_C_def R_C_v2_def)

lemma abv_step_cong:
  "(\<And>p. rho p 20 = rho' p 20) \<Longrightarrow> abv_step rho T k s = abv_step rho' T k s"
  by (simp add: abv_step_def)

lemma abv_fold_cong:
  "(\<And>p. rho p 20 = rho' p 20) \<Longrightarrow> fold (abv_step rho T) xs s = fold (abv_step rho' T) xs s"
  by (induction xs arbitrary: s) (simp_all add: abv_step_cong [of rho rho'])

lemma abvToMassFraction_v2_eq: "abvToMassFraction_v2 abv = abvToMassFraction abv"
  unfolding abvToMassFraction_v2_def abvToMassFraction_def abv_solve_def
  using abv_fold_cong [of rho_p_t_v2 rho_p_t, OF rho_p_t_v2_20] by simp

lemma hyd_fold_v2_20:
  "fold (hyd_step abvToMassFraction_v2 rho_p_t_v2 target 20) xs s
     = fold (hyd_step abvToMassFraction rho_p_t target 20) xs s"
  by (induction xs arbitrary: s)
    (simp_all add: hyd_step_def abvToMassFraction_v2_eq rho_p_t_v2_20)

lemma correction_v2_20:
  "correction (correctHydrometerReading_v2 x 20) = correction (correctHydrometerReading x 20)"
  by (simp add: correctHydrometerReading_v2_def getHydrometerCorrection_v2_def
      correctHydrometerReading_def getHydrometerCorrection_def HydrometerCorrection.defs Let_def
      hyd_solve_def hyd_fold_v2_20 abvToMassFraction_v2_eq rho_p_t_v2_20)

text \<open>
  Claim C6. For every reading \<open>x\<close> in \<open>[0, 100]\<close> the correction returned at 20 degrees is 0,
  in both polynomial modules: the bisection ends within \<open>0.0003\<close> of the reading, and the
  difference rounds to 0 at one decimal.
\<close>

theorem correction_zero_at_20:
  assumes "0 \<le> x" and "x \<le> 100"
  shows "correction (correctHydrometerReading x 20) = 0 \<and>
         correction (correctHydrometerReading_v2 x 20) = 0"
  using correction_20 [OF assms] by (simp add: correction_v2_20)

theorem correction_zero_at_20_witness:
  "(0::real) \<le> 40 \<and> (40::real) \<le> 100 \<and>
   correction (correctHydrometerReading 40 20) = 0 \<and>
   correction (correctHydrometerReading_v2 40 20) = 0"
  using correction_zero_at_20 [of 40] by simp

section \<open>The contraction factor\<close>

lemma ipeval_1: "ipeval cs 1 = of_int (sum_list cs)"
  by (induction cs) simp_all

lemma ipeval_0: "ipeval cs 0 = of_int (ihead cs)"
  by (cases cs) (simp_all add: ihead_def)

lemma ipeval_isuffix: "(1 - p) * ipeval (isuffix cs) p = ipeval cs 1 - p * ipeval cs p"
proof (induction cs)
  case Nil
  show ?case by simp
next
  case (Cons a cs)
  have "(1 - p) * ipeval (isuffix (a # cs)) p
      = (1 - p) * (of_int a + ipeval cs 1) + p * ((1 - p) * ipeval (isuffix cs) p)"
    by (simp add: ipeval_1 algebra_simps)
  also have "\<dots> = (1 - p) * (of_int a + ipeval cs 1) + p * (ipeval cs 1 - p * ipeval cs p)"
    by (simp only: Cons.IH)
  also have "\<dots> = ipeval (a # cs) 1 - p * ipeval (a # cs) p"
    by (simp add: algebra_simps)
  finally show ?case .
qed

lemma ipeval_chord:
  "ipeval r p = (1 - p) * ipeval r 0 + p * ipeval r 1 - p * ((1 - p) * ipeval (isuffix (drop 2 r)) p)"
proof (cases r)
  case Nil
  then show ?thesis by simp
next
  case (Cons a cs)
  show ?thesis
  proof (cases cs)
    case Nil
    then show ?thesis using Cons by (simp add: algebra_simps)
  next
    case (Cons b ds)
    have "(1 - p) * ipeval (isuffix ds) p = ipeval ds 1 - p * ipeval ds p"
      by (rule ipeval_isuffix)
    then have "p * ((1 - p) * ipeval (isuffix ds) p) = p * (ipeval ds 1 - p * ipeval ds p)"
      by simp
    then show ?thesis using Cons \<open>r = a # cs\<close>
      by (simp add: algebra_simps)
  qed
qed

lemma ipeval2_chord:
  "ipeval2 q p d = (1 - p) * ipeval2 q 0 d + p * ipeval2 q 1 d
      - p * (1 - p) * ipeval2 (chord_gap q) p d"
proof (induction q)
  case Nil
  show ?case by (simp add: chord_gap_def)
next
  case (Cons r q)
  have "ipeval2 (r # q) p d = ipeval r p + d * ipeval2 q p d" by simp
  also have "\<dots> = ((1 - p) * ipeval r 0 + p * ipeval r 1 - p * ((1 - p) * ipeval (isuffix (drop 2 r)) p))
      + d * ((1 - p) * ipeval2 q 0 d + p * ipeval2 q 1 d - p * (1 - p) * ipeval2 (chord_gap q) p d)"
    using ipeval_chord [of r p] Cons.IH by simp
  also have "\<dots> = (1 - p) * ipeval2 (r # q) 0 d + p * ipeval2 (r # q) 1 d
      - p * (1 - p) * ipeval2 (chord_gap (r # q)) p d"
    by (simp add: chord_gap_def algebra_simps)
  finally show ?case .
qed

lemma ipeval2_ideal_mix:
  "ipeval2 (ideal_mix q) p d = p * ipeval2 q 0 d + (1 - p) * ipeval2 q 1 d"
proof (induction q)
  case Nil
  show ?case by (simp add: ideal_mix_def)
next
  case (Cons r q)
  have "ipeval2 (ideal_mix (r # q)) p d
      = (of_int (sum_list r) + p * (of_int (ihead r) - of_int (sum_list r)))
        + d * ipeval2 (ideal_mix q) p d"
    by (simp add: ideal_mix_def)
  also have "\<dots> = (of_int (sum_list r) + p * (of_int (ihead r) - of_int (sum_list r)))
        + d * (p * ipeval2 q 0 d + (1 - p) * ipeval2 q 1 d)"
    by (simp only: Cons.IH)
  also have "\<dots> = p * ipeval2 (r # q) 0 d + (1 - p) * ipeval2 (r # q) 1 d"
    by (simp add: ipeval_0 ipeval_1 algebra_simps)
  finally show ?case .
qed

lemma ipeval2_end_diff: "ipeval2 (end_diff q) p d = ipeval2 q 0 d - ipeval2 q 1 d"
proof (induction q)
  case Nil
  show ?case by (simp add: end_diff_def)
next
  case (Cons r q)
  have "ipeval2 (end_diff (r # q)) p d
      = (of_int (ihead r) - of_int (sum_list r)) + d * ipeval2 (end_diff q) p d"
    by (simp add: end_diff_def)
  also have "\<dots> = (of_int (ihead r) - of_int (sum_list r)) + d * (ipeval2 q 0 d - ipeval2 q 1 d)"
    by (simp only: Cons.IH)
  also have "\<dots> = ipeval2 (r # q) 0 d - ipeval2 (r # q) 1 d"
    by (simp add: ipeval_0 ipeval_1 algebra_simps)
  finally show ?case .
qed

lemma ipeval2_contraction_poly:
  "ipeval2 (contraction_poly q) p d
     = ipeval2 (chord_gap q) p d * (p * ipeval2 q 0 d + (1 - p) * ipeval2 q 1 d)
       - (ipeval2 q 0 d - ipeval2 q 1 d) ^ 2"
  by (simp add: contraction_poly_def ipeval2_iadd2 ipeval2_imul2 ipeval2_smult
      ipeval2_ideal_mix ipeval2_end_diff power2_eq_square algebra_simps)

lemma ipeval2_end_0: "ipeval2 (end_0 q) p d = ipeval2 q 0 d"
  by (induction q) (simp_all add: end_0_def ipeval_0)

lemma ipeval2_end_1: "ipeval2 (end_1 q) p d = ipeval2 q 1 d"
  by (induction q) (simp_all add: end_1_def ipeval_1)

lemma ipeval2_contraction_margin:
  "ipeval2 (contraction_margin k q) p d
     = of_int k * ipeval2 (contraction_poly q) p d + ipeval2 q 0 d * ipeval2 q 1 d"
  by (simp add: contraction_margin_def ipeval2_iadd2 ipeval2_imul2 ipeval2_smult
      ipeval2_end_0 ipeval2_end_1)

text \<open>
  The product of the density and the ideal mixture against the product of the two pure
  densities.
\<close>

lemma mix_excess:
  fixes E E0 E1 W p :: real
  assumes "E = (1 - p) * E0 + p * E1 - p * (1 - p) * W"
  shows "E * (p * E0 + (1 - p) * E1) - E0 * E1
      = p * (1 - p) * ((E0 - E1) ^ 2 - W * (p * E0 + (1 - p) * E1))"
  unfolding assms by (simp add: power2_eq_square algebra_simps)

text \<open>
  With the table of the second module, on \<open>0 \<le> p \<le> 1\<close> and from -10 to 50 degrees: 80 times
  the contraction polynomial plus the product of the two pure densities is negative, and
  the density is positive.
\<close>

lemma cert_contraction: "icheck 6 (to_unit 0 30 (contraction_margin 80 R_C_v2))"
  by (simp add: icheck_eval R_C_v2_def contraction_margin_def contraction_poly_def
      chord_gap_def ideal_mix_def end_diff_def end_0_def end_1_def ihead_def)

lemma cert_positive_v2: "icheck 2 (to_unit 0 30 (map (map ((*) (- 1))) R_C_v2))"
  by (simp add: icheck_eval R_C_v2_def)



lemma toFixed_ge_one: "1 \<le> x \<Longrightarrow> 1 \<le> toFixed x d"
proof -
  assume x: "1 \<le> x"
  have "(of_int (1 * 10 ^ d) :: real) + 1 / 2 \<le> x * 10 ^ d + 1 / 2"
    using x by simp
  then have "\<lfloor>(of_int (1 * 10 ^ d) :: real) + 1 / 2\<rfloor> \<le> \<lfloor>x * 10 ^ d + 1 / 2\<rfloor>"
    by (rule floor_mono)
  moreover have "\<lfloor>(of_int (1 * 10 ^ d) :: real) + 1 / 2\<rfloor> = 1 * 10 ^ d" by linarith
  ultimately have "(10 ^ d :: int) \<le> \<lfloor>x * 10 ^ d + 1 / 2\<rfloor>" by simp
  then have "(of_int (10 ^ d) :: real) \<le> of_int \<lfloor>x * 10 ^ d + 1 / 2\<rfloor>"
    by (simp only: of_int_le_iff)
  then have "1 \<le> (of_int \<lfloor>x * 10 ^ d + 1 / 2\<rfloor> :: real) / 10 ^ d"
    by (simp add: le_divide_eq)
  then show ?thesis using x by (simp add: toFixed_def)
qed

lemma toFixed_one: "toFixed 1 d = 1"
proof -
  have "\<lfloor>(of_int (10 ^ d) :: real) + 1 / 2\<rfloor> = 10 ^ d" by linarith
  then show ?thesis by (simp add: toFixed_def)
qed

lemma rho_v2_positive:
  assumes "0 \<le> p" "p \<le> 1" "-10 \<le> t" "t \<le> 50"
  shows "0 < ipeval2 R_C_v2 p (t - 20)"
proof -
  have "\<bar>(t - 20) - of_int 0\<bar> \<le> of_int 30" using assms(3,4) by (simp add: abs_le_iff)
  then have "ipeval2 (map (map ((*) (- 1))) R_C_v2) p (t - 20) < 0"
    using cert_positive_v2 assms(1,2)
    by (intro to_unit_sound [where n = 2 and dmid = 0 and dhalf = 30]) simp_all
  then show ?thesis by (simp add: ipeval2_smult)
qed

text \<open>
  The ratio of \<open>calculateDensity\<close> at a mass fraction \<open>p\<close>: it is 1 at \<open>p = 0\<close> and \<open>p = 1\<close>, and
  exceeds 1 by at least \<open>p * (1 - p) / 80\<close>.
\<close>

lemma excess_low:
  fixes c p S D :: real
  assumes c1: "c - 1 = p * (1 - p) * S / D" and q: "1 / 80 < S / D" and pp: "0 \<le> p * (1 - p)"
  shows "1 + p * (1 - p) / 80 \<le> c"
proof -
  define y where "y = p * (1 - p)"
  define k where "k = S / D"
  have "y * (1 / 80) \<le> y * k" using q pp unfolding y_def k_def by (intro mult_left_mono) simp_all
  then have yk: "y / 80 \<le> y * k" by simp
  have ck: "c = y * k + 1" using c1 by (simp only: diff_eq_eq y_def k_def times_divide_eq_right)
  have "1 + y / 80 \<le> c" unfolding ck using yk by simp
  then show ?thesis by (simp only: y_def)
qed

lemma contraction_ratio:
  assumes t: "-10 \<le> t" "t \<le> 50" and p: "0 \<le> p" "p \<le> 1"
  defines "c \<equiv> (p / (rho_p_t_v2 1 t / 1000) + (1 - p) / (rho_p_t_v2 0 t / 1000))
      / (1 / (rho_p_t_v2 p t / 1000))"
  shows "(p = 0 \<or> p = 1 \<longrightarrow> c = 1) \<and> (0 < p \<and> p < 1 \<longrightarrow> 1 < c) \<and> 1 + p * (1 - p) / 80 \<le> c"
proof -
  define d where "d = t - 20"
  define E where "E = ipeval2 R_C_v2 p d"
  define E0 where "E0 = ipeval2 R_C_v2 0 d"
  define E1 where "E1 = ipeval2 R_C_v2 1 d"
  define W where "W = ipeval2 (chord_gap R_C_v2) p d"
  define S where "S = (E0 - E1) ^ 2 - W * (p * E0 + (1 - p) * E1)"
  have pos: "0 < E" "0 < E0" "0 < E1"
    using rho_v2_positive [of p t] rho_v2_positive [of 0 t] rho_v2_positive [of 1 t] t p
    by (simp_all add: E_def E0_def E1_def d_def)
  have c: "c = E * (p * E0 + (1 - p) * E1) / (E0 * E1)"
    using pos
    by (simp add: c_def rho_p_t_v2_def rho_poly_C_v2 d_def [symmetric] E_def [symmetric]
        E0_def [symmetric] E1_def [symmetric] field_simps)
  have chord: "E = (1 - p) * E0 + p * E1 - p * (1 - p) * W"
    unfolding E_def E0_def E1_def W_def by (rule ipeval2_chord)
  have ex: "E * (p * E0 + (1 - p) * E1) - E0 * E1 = p * (1 - p) * S"
    unfolding S_def using chord by (rule mix_excess)
  have "\<bar>d - of_int 0\<bar> \<le> of_int 30" using t by (simp add: d_def abs_le_iff)
  then have "ipeval2 (contraction_margin 80 R_C_v2) p d < 0"
    using cert_contraction p
    by (intro to_unit_sound [where n = 6 and dmid = 0 and dhalf = 30]) simp_all
  then have M: "E0 * E1 < 80 * S"
    by (simp add: ipeval2_contraction_margin ipeval2_contraction_poly W_def E0_def E1_def S_def)
  have den: "0 < E0 * E1" using pos by simp
  have c1: "c - 1 = p * (1 - p) * S / (E0 * E1)"
    using pos unfolding c ex [symmetric] by (simp add: diff_divide_distrib)
  have q: "1 / 80 < S / (E0 * E1)" using M den by (simp add: field_simps)
  have pp: "0 \<le> p * (1 - p)" using p by simp
  have low: "1 + p * (1 - p) / 80 \<le> c" using c1 q pp by (rule excess_low)
  show ?thesis
  proof (intro conjI impI)
    assume "p = 0 \<or> p = 1"
    then have "p * (1 - p) * S / (E0 * E1) = 0" by auto
    then have "c - 1 = 0" by (simp only: c1)
    then show "c = 1" by simp
  next
    assume "0 < p \<and> p < 1"
    then have "0 < p * (1 - p)" by simp
    then show "1 < c" using low by simp
  next
    show "1 + p * (1 - p) / 80 \<le> c" by (rule low)
  qed
qed

text \<open>
  The mass fraction that \<open>abvToMassFraction\<close> returns is away from 0 and from 1 when \<open>abv\<close>
  is away from 0 and from 100.
\<close>

lemma abvToMassFraction_away:
  assumes "0 < abv" "abv < 100"
  shows "abv / 200 - 1 / 2 ^ 40 \<le> abvToMassFraction abv"
    and "(vol_frac 1 - abv / 100) / 2 - 1 / 2 ^ 40 \<le> 1 - abvToMassFraction abv"
proof -
  define T where "T = abv / 100"
  define e :: real where "e = 1 / 2 ^ 40"
  have T: "0 < T" "T < 1" using assms by (simp_all add: T_def)
  obtain low high p where s: "fold (abv_step rho_p_t T) [0..<40] (0, 1, 0.5) = (low, high, p)"
    and h: "0 \<le> low" "high \<le> 1" "high - low = 1 / 2 ^ 40" "p = low \<or> p = high"
      "vol_frac low < T" "high = 1 \<or> T \<le> vol_frac high" "0 < p" "p < 1"
    using abv_final [OF T(1)] by metis
  have p: "abvToMassFraction abv = p"
    using assms s by (simp add: abvToMassFraction_fold T_def [symmetric])
  have w: "high - low = e" using h(3) by (simp only: e_def)
  have e: "0 \<le> e" by (simp add: e_def)
  have lh: "low \<le> high" using w e by argo
  have h0: "0 \<le> high" using h(1) lh by simp
  have l1: "low \<le> 1" using h(2) lh by simp
  have plo: "low \<le> p" and phi: "p \<le> high" using h(4) lh by auto
  have up: "vol_frac high \<le> 2 * high"
    using vol_frac_lipschitz [of 0 high] h0 h(2) by (simp add: vol_frac_0)
  have "T / 2 \<le> high"
  proof (cases "high = 1")
    case True
    then show ?thesis using T(2) by simp
  next
    case False
    then have "T \<le> vol_frac high" using h(6) by blast
    then show ?thesis using up by argo
  qed
  then have "T / 2 - e \<le> low" using w by argo
  then have "T / 2 - e \<le> p" using plo by argo
  then show "abv / 200 - 1 / 2 ^ 40 \<le> abvToMassFraction abv" by (simp add: p T_def e_def)
  have "vol_frac 1 - vol_frac low \<le> 2 * (1 - low)"
    using vol_frac_lipschitz [of low 1] h(1) l1 by simp
  then have "(vol_frac 1 - T) / 2 \<le> 1 - low" using h(5) by argo
  then have "(vol_frac 1 - T) / 2 - e \<le> 1 - high" using w by argo
  then have "(vol_frac 1 - T) / 2 - e \<le> 1 - p" using phi by argo
  then show "(vol_frac 1 - abv / 100) / 2 - 1 / 2 ^ 40 \<le> 1 - abvToMassFraction abv"
    by (simp add: p T_def e_def)
qed

lemma abvToMassFraction_two_decimals:
  assumes "1 / 100 \<le> abv" "abv \<le> 9999 / 100"
  shows "1 / 20250 \<le> abvToMassFraction abv" "abvToMassFraction abv \<le> 1 - 1 / 20250"
proof -
  have a: "0 < abv" "abv < 100" using assms by simp_all
  have "(1 / 20250 :: real) \<le> (1 / 100) / 200 - 1 / 2 ^ 40" by simp
  also have "\<dots> \<le> abv / 200 - 1 / 2 ^ 40" using assms(1) by simp
  also have "\<dots> \<le> abvToMassFraction abv" using a by (rule abvToMassFraction_away(1))
  finally show "1 / 20250 \<le> abvToMassFraction abv" .
  have "(1 / 20250 :: real) \<le> (7892391233 / 7892400000 - (9999 / 100) / 100) / 2 - 1 / 2 ^ 40"
    by simp
  also have "\<dots> \<le> (vol_frac 1 - abv / 100) / 2 - 1 / 2 ^ 40"
    using assms(2) by (simp add: vol_frac_1)
  also have "\<dots> \<le> 1 - abvToMassFraction abv" using a by (rule abvToMassFraction_away(2))
  finally show "abvToMassFraction abv \<le> 1 - 1 / 20250" by simp
qed

lemma product_away:
  fixes a p :: real
  assumes "a \<le> p" "p \<le> 1 - a"
  shows "a * (1 - a) \<le> p * (1 - p)"
proof -
  have "0 \<le> (p - a) * (1 - a - p)" using assms by simp
  also have "\<dots> = p * (1 - p) - a * (1 - a)" by (simp add: algebra_simps)
  finally show ?thesis by simp
qed

text \<open>The rounding to six decimals is above 1 exactly from \<open>1.0000005\<close> on.\<close>

lemma toFixed_gt_one_iff: "1 < toFixed c 6 \<longleftrightarrow> 10000005 / 10000000 \<le> c"
proof (cases "c < 0")
  case True
  then have "toFixed c 6 \<le> 0" by (simp add: toFixed_def)
  then show ?thesis using True by simp
next
  case False
  have "1 < toFixed c 6 \<longleftrightarrow> (of_int (10 ^ 6) :: real) < of_int \<lfloor>c * 10 ^ 6 + 1 / 2\<rfloor>"
    using False by (simp add: toFixed_def)
  also have "\<dots> \<longleftrightarrow> (10 ^ 6 :: int) < \<lfloor>c * 10 ^ 6 + 1 / 2\<rfloor>"
    by (simp only: of_int_less_iff)
  also have "\<dots> \<longleftrightarrow> (10 ^ 6 :: int) + 1 \<le> \<lfloor>c * 10 ^ 6 + 1 / 2\<rfloor>"
    by linarith
  also have "\<dots> \<longleftrightarrow> (of_int (10 ^ 6 + 1) :: real) \<le> c * 10 ^ 6 + 1 / 2"
    by (simp only: le_floor_iff)
  also have "\<dots> \<longleftrightarrow> 1000001 \<le> c * 1000000 + 1 / 2" by simp
  also have "\<dots> \<longleftrightarrow> 10000005 / 10000000 \<le> c" by argo
  finally show ?thesis .
qed

lemma toFixed_six_step: "1 < toFixed c 6 \<Longrightarrow> 1000001 / 1000000 \<le> toFixed c 6"
proof -
  assume a: "1 < toFixed c 6"
  then have c: "\<not> c < 0" using toFixed_gt_one_iff [of c] by simp
  then have "(of_int (10 ^ 6) :: real) < of_int \<lfloor>c * 10 ^ 6 + 1 / 2\<rfloor>"
    using a by (simp add: toFixed_def)
  then have "(10 ^ 6 :: int) < \<lfloor>c * 10 ^ 6 + 1 / 2\<rfloor>"
    by (simp only: of_int_less_iff)
  then have "(10 ^ 6 :: int) + 1 \<le> \<lfloor>c * 10 ^ 6 + 1 / 2\<rfloor>" by linarith
  then have "(of_int (10 ^ 6 + 1) :: real) \<le> of_int \<lfloor>c * 10 ^ 6 + 1 / 2\<rfloor>"
    by (simp only: of_int_le_iff)
  then show ?thesis using c by (simp add: toFixed_def)
qed

lemma abvToMassFraction_small: "abvToMassFraction (1 / 10000) = 869343 / 1099511627776"
  by (simp add: abvToMassFraction_def abv_solve_def upt_0_40 abv_step_def rho_p_t_20
      RHO_ETH_20_def Let_def)

text \<open>
  Claim C7, as stated: the contraction factor returned is strictly greater than 1 for
  every \<open>abv\<close> strictly between 0 and 100. It fails at \<open>abv = 0.0001\<close> and 20 degrees: the
  mass fraction is \<open>869343 / 2 ^ 40\<close>, the ratio is \<open>1.00000006\<close>, and its rounding to six
  decimals is 1.
\<close>

theorem contraction_factor_counterexample:
  "\<not> 1 < contractionFactor (calculateDensity_v2 (1 / 10000) 20)"
proof -
  have "contractionFactor (calculateDensity_v2 (1 / 10000) 20) = 1"
    by (simp add: calculateDensity_v2_def Let_def abvToMassFraction_v2_eq abvToMassFraction_small
        rho_p_t_v2_20 rho_p_t_20 toFixed_def)
  then show ?thesis by simp
qed

text \<open>
  Claim C7, amended. For a temperature from -10 to 50 degrees, the contraction factor
  returned by \<open>calculateDensity\<close> (second polynomial module) is the rounding to six decimals
  of the ratio that the function computes. It is 1 when \<open>abv \<le> 0\<close> or \<open>abv \<ge> 100\<close>. For
  \<open>0 < abv < 100\<close> the ratio is strictly greater than 1 and the factor returned is at least
  1. The factor returned is strictly greater than 1 exactly when the ratio is at least
  \<open>1.0000005\<close>, and then it is at least \<open>1.000001\<close>; this is so for every \<open>abv\<close> from \<open>0.01\<close> to
  \<open>99.99\<close>.
\<close>

theorem contraction_factor:
  assumes "-10 \<le> t" and "t \<le> 50"
  shows "contractionFactor (calculateDensity_v2 abv t)
           = toFixed (contractionFactor_unrounded abv t) 6 \<and>
         (abv \<le> 0 \<or> 100 \<le> abv \<longrightarrow> contractionFactor (calculateDensity_v2 abv t) = 1) \<and>
         (0 < abv \<and> abv < 100 \<longrightarrow>
            1 < contractionFactor_unrounded abv t \<and>
            1 \<le> contractionFactor (calculateDensity_v2 abv t)) \<and>
         (1 < contractionFactor (calculateDensity_v2 abv t)
            \<longleftrightarrow> 10000005 / 10000000 \<le> contractionFactor_unrounded abv t) \<and>
         (1 < contractionFactor (calculateDensity_v2 abv t)
            \<longrightarrow> 1000001 / 1000000 \<le> contractionFactor (calculateDensity_v2 abv t)) \<and>
         (1 / 100 \<le> abv \<and> abv \<le> 9999 / 100 \<longrightarrow>
            1 < contractionFactor (calculateDensity_v2 abv t))"
proof -
  define p where "p = abvToMassFraction_v2 abv"
  define c where "c = (p / (rho_p_t_v2 1 t / 1000) + (1 - p) / (rho_p_t_v2 0 t / 1000))
      / (1 / (rho_p_t_v2 p t / 1000))"
  have raw: "contractionFactor_unrounded abv t = c"
    by (simp add: contractionFactor_unrounded_def Let_def p_def c_def)
  have cf: "contractionFactor (calculateDensity_v2 abv t) = toFixed c 6"
    by (simp add: calculateDensity_v2_def Let_def p_def c_def)
  have p01: "0 \<le> p" "p \<le> 1"
    using abv_solve_range [of rho_p_t_v2 abv] by (simp_all add: p_def abvToMassFraction_v2_def)
  have r: "(p = 0 \<or> p = 1 \<longrightarrow> c = 1) \<and> (0 < p \<and> p < 1 \<longrightarrow> 1 < c) \<and> 1 + p * (1 - p) / 80 \<le> c"
    unfolding c_def using assms p01 by (rule contraction_ratio)
  show ?thesis
  proof (intro conjI impI)
    show "contractionFactor (calculateDensity_v2 abv t)
        = toFixed (contractionFactor_unrounded abv t) 6"
      by (simp add: cf raw)
  next
    assume "abv \<le> 0 \<or> 100 \<le> abv"
    then have "p = 0 \<or> p = 1" by (auto simp: p_def abvToMassFraction_v2_def abv_solve_def)
    then have "c = 1" using r by blast
    then show "contractionFactor (calculateDensity_v2 abv t) = 1" by (simp add: cf toFixed_one)
  next
    assume a: "0 < abv \<and> abv < 100"
    then have "0 < p" "p < 1"
      by (simp_all add: p_def abvToMassFraction_v2_def abv_solve_pos abv_solve_lt_1)
    then have "1 < c" using r by blast
    then show "1 < contractionFactor_unrounded abv t" by (simp add: raw)
    show "1 \<le> contractionFactor (calculateDensity_v2 abv t)"
      using \<open>1 < c\<close> by (simp add: cf toFixed_ge_one)
  next
    show "1 < contractionFactor (calculateDensity_v2 abv t)
        \<longleftrightarrow> 10000005 / 10000000 \<le> contractionFactor_unrounded abv t"
      unfolding cf raw by (rule toFixed_gt_one_iff)
  next
    assume "1 < contractionFactor (calculateDensity_v2 abv t)"
    then show "1000001 / 1000000 \<le> contractionFactor (calculateDensity_v2 abv t)"
      unfolding cf by (rule toFixed_six_step)
  next
    assume a: "1 / 100 \<le> abv \<and> abv \<le> 9999 / 100"
    then have "1 / 20250 \<le> p" "p \<le> 1 - 1 / 20250"
      using abvToMassFraction_two_decimals [of abv] by (simp_all add: p_def abvToMassFraction_v2_eq)
    then have "(1 / 20250) * (1 - 1 / 20250) \<le> p * (1 - p)" by (rule product_away)
    then have "1 + (1 / 20250) * (1 - 1 / 20250) / 80 \<le> 1 + p * (1 - p) / 80" by simp
    also have "\<dots> \<le> c" using r by blast
    finally have "10000005 / 10000000 \<le> c" by simp
    then show "1 < contractionFactor (calculateDensity_v2 abv t)"
      unfolding cf by (simp only: toFixed_gt_one_iff)
  qed
qed

theorem contraction_factor_witness:
  "((-10::real) \<le> 20 \<and> (20::real) \<le> 50) \<and> ((0::real) \<le> 0) \<and>
   ((0::real) < 50 \<and> (50::real) < 100) \<and> ((1 / 100 :: real) \<le> 50 \<and> (50::real) \<le> 9999 / 100) \<and>
   contractionFactor (calculateDensity_v2 0 20) = 1 \<and>
   1 < contractionFactor_unrounded 50 20 \<and>
   1 < contractionFactor (calculateDensity_v2 50 20) \<and>
   1000001 / 1000000 \<le> contractionFactor (calculateDensity_v2 50 20)"
proof -
  have t: "(-10::real) \<le> 20" "(20::real) \<le> 50" by simp_all
  have a: "(0::real) \<le> 0 \<or> (100::real) \<le> 0" by simp
  have b: "(0::real) < 50 \<and> (50::real) < 100" by simp
  have c: "(1 / 100 :: real) \<le> 50 \<and> (50::real) \<le> 9999 / 100" by simp
  note x = contraction_factor [OF t, of 0] and y = contraction_factor [OF t, of 50]
  have 1: "contractionFactor (calculateDensity_v2 0 20) = 1" using x a by blast
  have 2: "1 < contractionFactor_unrounded 50 20" using y b by blast
  have 3: "1 < contractionFactor (calculateDensity_v2 50 20)" using y c by blast
  have 4: "1000001 / 1000000 \<le> contractionFactor (calculateDensity_v2 50 20)"
    using y 3 by blast
  from 1 2 3 4 show ?thesis by simp
qed

section \<open>Decimal places of the results\<close>

text \<open>
  Claim C8, as stated: the density is rounded to 4 decimals. It fails at 0 percent and 20
  degrees, where the density returned is 0.998201.
\<close>

theorem density_four_decimals_counterexample:
  "\<not> decimals 4 (calculateDensity 0 20)"
proof
  assume "decimals 4 (calculateDensity 0 20)"
  then have "(of_int 998201 / of_int 100 :: real) \<in> \<int>"
    by (simp add: decimals_def density_0_20)
  then have "(100::int) dvd 998201" by (rule Ints_fraction_dvd) simp
  then show False by simp
qed

text \<open>
  From -10 to 50 degrees the density is above 700 kg/m3, so the density returned is not 0.
\<close>

lemma cert_density_700:
  "icheck 2 (to_unit 0 30 (iadd2 [[700 * 10 ^ 18]] (map (map ((*) (- 1))) R_C)))"
  by (simp add: icheck_eval R_C_def)

lemma rho_p_t_above_700:
  assumes "0 \<le> p" "p \<le> 1" "-10 \<le> t" "t \<le> 50"
  shows "700 < rho_p_t p t"
proof -
  have "\<bar>(t - 20) - of_int 0\<bar> \<le> of_int 30" using assms(3,4) by (simp add: abs_le_iff)
  then have "ipeval2 (iadd2 [[700 * 10 ^ 18]] (map (map ((*) (- 1))) R_C)) p (t - 20) < 0"
    using cert_density_700 assms(1,2)
    by (intro to_unit_sound [where n = 2 and dmid = 0 and dhalf = 30]) simp_all
  then have "700 * 10 ^ 18 < ipeval2 R_C p (t - 20)"
    by (simp add: ipeval2_iadd2 ipeval2_smult)
  then show ?thesis by (simp add: rho_p_t_def rho_poly_C less_divide_eq)
qed

lemma calculateDensity_nonzero:
  assumes "-10 \<le> tempC" "tempC \<le> 50"
  shows "calculateDensity abv tempC \<noteq> 0"
proof -
  define p where "p = abvToMassFraction abv"
  have "700 < rho_p_t p tempC"
    using abvToMassFraction_range [of abv] assms by (intro rho_p_t_above_700) (simp_all add: p_def)
  define y where "y = rho_p_t p tempC / 1000"
  have "7 / 10 < y" using \<open>700 < rho_p_t p tempC\<close> by (simp add: y_def)
  moreover have "\<bar>toFixed y 6 - y\<bar> \<le> 1 / 2000000"
    using toFixed_err [of y 6] by simp
  ultimately have "0 < toFixed y 6" by argo
  then have "0 < toFixed (rho_p_t p tempC / 1000) 6" by (simp add: y_def)
  then show ?thesis by (simp add: calculateDensity_def p_def Let_def)
qed

text \<open>
  Claim C8, amended: for a temperature from -10 to 50 degrees and a positive target
  strength (so that no quotient of the code has a zero divisor), the density has 6 decimals
  (not 4); \<open>volumeMl\<close> and the ethanol mass have 2; \<open>waterToAddG\<close> and the hydrometer correction
  have 1.
\<close>

theorem rounding_contract:
  assumes "-10 \<le> tempC" and "tempC \<le> 50" and "0 < targetAbv"
  shows "calculateDensity abv tempC \<noteq> 0 \<and> abvToMassFraction targetAbv \<noteq> 0 \<and>
   decimals 6 (calculateDensity abv tempC) \<and>
   decimals 6 (density (calculateVolumeFromMass massG abv tempC)) \<and>
   decimals 2 (volumeMl (calculateVolumeFromMass massG abv tempC)) \<and>
   decimals 2 (calculateEthanolMass volMl abv tempC) \<and>
   decimals 2 (ethanolMassG (calculateDilutionWater sourceMassG sourceAbv targetAbv)) \<and>
   decimals 1 (waterToAddG (calculateDilutionWater sourceMassG sourceAbv targetAbv)) \<and>
   decimals 1 (correction (correctHydrometerReading readingAbv tempC))"
proof -
  have "calculateDensity abv tempC \<noteq> 0" using assms(1,2) by (rule calculateDensity_nonzero)
  moreover have "abvToMassFraction targetAbv \<noteq> 0"
    using abv_solve_pos [OF assms(3), of rho_p_t] by (simp add: abvToMassFraction_def)
  ultimately show ?thesis
    by (simp add: calculateDensity_def calculateVolumeFromMass_def calculateEthanolMass_def
      calculateDilutionWater_def correctHydrometerReading_def getHydrometerCorrection_def
      HydrometerCorrection.defs Let_def toFixed_decimals)
qed

theorem rounding_contract_witness:
  "((-10::real) \<le> 20 \<and> (20::real) \<le> 50 \<and> (0::real) < 40) \<and>
   calculateDensity 96 20 \<noteq> 0 \<and> abvToMassFraction 40 \<noteq> 0 \<and>
   decimals 6 (calculateDensity 96 20) \<and>
   decimals 6 (density (calculateVolumeFromMass 1000 96 20)) \<and>
   decimals 2 (volumeMl (calculateVolumeFromMass 1000 96 20)) \<and>
   decimals 2 (calculateEthanolMass 1000 96 20) \<and>
   decimals 2 (ethanolMassG (calculateDilutionWater 1000 96 40)) \<and>
   decimals 1 (waterToAddG (calculateDilutionWater 1000 96 40)) \<and>
   decimals 1 (correction (correctHydrometerReading 40 20))"
  using rounding_contract [of 20 40 96 1000 1000 1000 96 40] by simp

end
